theory Spec2Isabelle
  imports Main "HOL-Library.Sublist" "HOL-Library.Multiset"
begin

section \<open>JavaScript values and strings\<close>

text \<open>
  The values a template syntax node can carry in its \<open>value\<close> field, and the values the
  helper functions of the loader return. Numbers are the integer literals of a template;
  floating point literals are not represented.
\<close>

datatype jsvalue =
    JUndefined
  | JNull
  | JBool bool
  | JInt int
  | JStr string

datatype error =
    TypeError string
  | Error string

definition dq :: char where
  "dq = CHR 0x22"

definition bs :: char where
  "bs = CHR 0x5C"

definition digit :: "nat \<Rightarrow> char" where
  "digit d = ''0123456789'' ! (d mod 10)"

function showNat :: "nat \<Rightarrow> string" where
  "showNat n = (if n < 10 then [digit n] else showNat (n div 10) @ [digit n])"
  by pat_completeness auto
termination
  by (relation "measure (\<lambda>n. n)") auto

declare showNat.simps [simp del]

text \<open>String conversion as a template literal \<open>`${v}`\<close> and \<open>Array.prototype.join\<close> do it.\<close>

fun toStr :: "jsvalue \<Rightarrow> string" where
  "toStr JUndefined = ''undefined''"
| "toStr JNull = ''null''"
| "toStr (JBool b) = (if b then ''true'' else ''false'')"
| "toStr (JInt i) = (if i < 0 then CHR ''-'' # showNat (nat (- i)) else showNat (nat i))"
| "toStr (JStr s) = s"

text \<open>\<open>Array.prototype.join(sep)\<close> on an array of strings.\<close>

fun join :: "'a list \<Rightarrow> 'a list list \<Rightarrow> 'a list" where
  "join sep [] = []"
| "join sep [x] = x"
| "join sep (x # y # ys) = x @ sep @ join sep (y # ys)"

section \<open>The template syntax tree\<close>

text \<open>
  The call site of a custom tag names its extension either by the registered name or by
  the extension object itself (\<open>this.extName = ext.__name || ext\<close> in the template library).
  Objects are compared by identity; an object is represented by its handle.
\<close>

datatype extName =
    ByName string
  | ByInstance nat

text \<open>
  The node classes of the template library that the loader tells apart, and \<open>Other\<close> for
  every other class. Each constructor lists the fields of the node that hold nodes, in the
  order of the class's field list. Where a field holds a list of nodes (the arguments of a
  call, the names of a from-import, the arguments of a custom tag) the constructor holds
  the children of that list; the list object itself is not represented. The content blocks
  of a custom tag are held in a plain array, which \<open>findAll\<close> does not enter; they are not
  represented. \<open>Filter\<close> is a subclass of \<open>FunCall\<close> in the library.
\<close>

datatype node =
    NodeList "node list"
  | Literal jsvalue
  | Symbol string
  | Add node node
  | FunCall node "node list"
  | Filter node "node list"
  | Extends node
  | Include node
  | Import node node
  | FromImport node "node list"
  | CallExtension extName "node list"
  | Other "node list"

datatype kind =
    KNodeList
  | KLiteral
  | KSymbol
  | KAdd
  | KFunCall
  | KFilter
  | KExtends
  | KInclude
  | KImport
  | KFromImport
  | KCallExtension
  | KOther

text \<open>The class a node was constructed with.\<close>

primrec classOf :: "node \<Rightarrow> kind" where
  "classOf (NodeList cs) = KNodeList"
| "classOf (Literal v) = KLiteral"
| "classOf (Symbol s) = KSymbol"
| "classOf (Add l r) = KAdd"
| "classOf (FunCall nm args) = KFunCall"
| "classOf (Filter nm args) = KFilter"
| "classOf (Extends t) = KExtends"
| "classOf (Include t) = KInclude"
| "classOf (Import t tg) = KImport"
| "classOf (FromImport t ns) = KFromImport"
| "classOf (CallExtension e args) = KCallExtension"
| "classOf (Other cs) = KOther"

text \<open>
  \<open>node instanceof nunjucks.nodes.K\<close>: the node's class is \<open>K\<close> or a subclass of it; among
  the classes above only \<open>Filter\<close> has a superclass listed, \<open>FunCall\<close>.
\<close>

definition instanceOf :: "kind \<Rightarrow> node \<Rightarrow> bool" where
  "instanceOf k n = (classOf n = k \<or> (k = KFunCall \<and> classOf n = KFilter))"

text \<open>Reading the field \<open>value\<close> of a node: only literals and symbols have one.\<close>

definition valueOf :: "node \<Rightarrow> jsvalue" where
  "valueOf n = (case n of Literal v \<Rightarrow> v | Symbol s \<Rightarrow> JStr s | _ \<Rightarrow> JUndefined)"

primrec children :: "node \<Rightarrow> node list" where
  "children (NodeList cs) = cs"
| "children (Literal v) = []"
| "children (Symbol s) = []"
| "children (Add l r) = [l, r]"
| "children (FunCall nm args) = nm # args"
| "children (Filter nm args) = nm # args"
| "children (Extends t) = [t]"
| "children (Include t) = [t]"
| "children (Import t tg) = [t, tg]"
| "children (FromImport t ns) = t # ns"
| "children (CallExtension e args) = args"
| "children (Other cs) = cs"

lemma size_member: "c \<in> set cs \<Longrightarrow> size (c::node) \<le> size_list size cs"
  by (induction cs) auto

lemma size_children: "c \<in> set (children n) \<Longrightarrow> size c < size n"
  by (cases n) (auto simp: less_Suc_eq_le dest: size_member)

text \<open>
  \<open>Node.findAll(type)\<close> of the template library, with its helper \<open>traverseAndCheck\<close>:
  every descendant of the node that is an instance of the type, in the order of a
  depth-first walk that visits a node before its children. The node itself is not tested.
\<close>

function findAll :: "kind \<Rightarrow> node \<Rightarrow> node list"
  and traverseAndCheck :: "kind \<Rightarrow> node \<Rightarrow> node list" where
  "findAll ty n = concat (map (traverseAndCheck ty) (children n))"
| "traverseAndCheck ty obj = (if instanceOf ty obj then [obj] else []) @ findAll ty obj"
  by pat_completeness auto
termination
  by (relation "measure (\<lambda>x. case x of Inl (ty, n) \<Rightarrow> 2 * size n + 1
                                      | Inr (ty, n) \<Rightarrow> 2 * size n + 2)")
     (auto dest: size_children)

declare findAll.simps [simp del] traverseAndCheck.simps [simp del]

text \<open>All descendants of a node in document order, and the node followed by them.\<close>

function descendants :: "node \<Rightarrow> node list"
  and subtree :: "node \<Rightarrow> node list" where
  "descendants n = concat (map subtree (children n))"
| "subtree n = n # descendants n"
  by pat_completeness auto
termination
  by (relation "measure (\<lambda>x. case x of Inl n \<Rightarrow> 2 * size n + 1 | Inr n \<Rightarrow> 2 * size n + 2)")
     (auto dest: size_children)

declare descendants.simps [simp del] subtree.simps [simp del]

section \<open>The dynamic expression of an asset path\<close>

text \<open>
  \<open>getAddNodeValue\<close> of \<open>src/precompile/with-dependencies.js\<close>. \<open>addOperand\<close> is the function
  it maps over \<open>[node.left, node.right]\<close>; an exception thrown for the left operand is the
  one that leaves the function.
\<close>

fun getAddNodeValue :: "node \<Rightarrow> error + string"
  and addOperand :: "node \<Rightarrow> error + string" where
  "getAddNodeValue (Add l r) =
     (case addOperand l of
        Inl e \<Rightarrow> Inl e
      | Inr a \<Rightarrow> (case addOperand r of
           Inl e \<Rightarrow> Inl e
         | Inr b \<Rightarrow> Inr (join '' + '' [a, b])))"
| "getAddNodeValue (NodeList cs) = Inl (TypeError ''Wrong node type'')"
| "getAddNodeValue (Literal v) = Inl (TypeError ''Wrong node type'')"
| "getAddNodeValue (Symbol s) = Inl (TypeError ''Wrong node type'')"
| "getAddNodeValue (FunCall nm args) = Inl (TypeError ''Wrong node type'')"
| "getAddNodeValue (Filter nm args) = Inl (TypeError ''Wrong node type'')"
| "getAddNodeValue (Extends t) = Inl (TypeError ''Wrong node type'')"
| "getAddNodeValue (Include t) = Inl (TypeError ''Wrong node type'')"
| "getAddNodeValue (Import t tg) = Inl (TypeError ''Wrong node type'')"
| "getAddNodeValue (FromImport t ns) = Inl (TypeError ''Wrong node type'')"
| "getAddNodeValue (CallExtension e args) = Inl (TypeError ''Wrong node type'')"
| "getAddNodeValue (Other cs) = Inl (TypeError ''Wrong node type'')"
| "addOperand (Add l r) = getAddNodeValue (Add l r)"
| "addOperand (Literal v) = Inr (dq # toStr v @ [dq])"
| "addOperand (Symbol s) = Inr s"
| "addOperand (NodeList cs) = Inl (TypeError ''Unsupported node signature'')"
| "addOperand (FunCall nm args) = Inl (TypeError ''Unsupported node signature'')"
| "addOperand (Filter nm args) = Inl (TypeError ''Unsupported node signature'')"
| "addOperand (Extends t) = Inl (TypeError ''Unsupported node signature'')"
| "addOperand (Include t) = Inl (TypeError ''Unsupported node signature'')"
| "addOperand (Import t tg) = Inl (TypeError ''Unsupported node signature'')"
| "addOperand (FromImport t ns) = Inl (TypeError ''Unsupported node signature'')"
| "addOperand (CallExtension e args) = Inl (TypeError ''Unsupported node signature'')"
| "addOperand (Other cs) = Inl (TypeError ''Unsupported node signature'')"

text \<open>The fields \<open>name\<close> and \<open>args.children\<close> of a function call node.\<close>

definition funCallFields :: "node \<Rightarrow> (node \<times> node list) option" where
  "funCallFields n =
     (case n of
        FunCall nm args \<Rightarrow> Some (nm, args)
      | Filter nm args \<Rightarrow> Some (nm, args)
      | _ \<Rightarrow> None)"

text \<open>
  \<open>getGlobalFnValue\<close>. A plain \<open>return\<close> yields \<open>undefined\<close>. With an empty argument list
  \<open>asset\<close> is \<open>undefined\<close>, \<open>asset instanceof Add\<close> is false and reading \<open>asset.value\<close> throws
  a TypeError. The function is only called with instances of \<open>FunCall\<close>.
\<close>

definition getGlobalFnValue :: "node \<Rightarrow> error + jsvalue" where
  "getGlobalFnValue n =
     (case funCallFields n of
        None \<Rightarrow> Inl (TypeError ''Cannot read properties of undefined'')
      | Some (nm, args) \<Rightarrow>
          if valueOf nm \<noteq> JStr ''static'' then Inr JUndefined
          else (case args of
                  [] \<Rightarrow> Inl (TypeError ''Cannot read properties of undefined'')
                | asset # rest \<Rightarrow>
                    if instanceOf KAdd asset
                    then (case getAddNodeValue asset of
                            Inl e \<Rightarrow> Inl e
                          | Inr s \<Rightarrow> Inr (JStr s))
                    else Inr (valueOf asset)))"

text \<open>
  The reading of a concatenation that the specification gives: the ordered sequence of its
  fragments, each a literal text or a variable name. A literal fragment is rendered in
  double quotes, a variable fragment bare.
\<close>

datatype fragment =
    LitFrag string
  | VarFrag string

primrec render :: "fragment \<Rightarrow> string" where
  "render (LitFrag s) = dq # s @ [dq]"
| "render (VarFrag v) = v"

primrec flatten :: "node \<Rightarrow> fragment list" where
  "flatten (NodeList cs) = []"
| "flatten (Literal v) = [LitFrag (toStr v)]"
| "flatten (Symbol s) = [VarFrag s]"
| "flatten (Add l r) = flatten l @ flatten r"
| "flatten (FunCall nm args) = []"
| "flatten (Filter nm args) = []"
| "flatten (Extends t) = []"
| "flatten (Include t) = []"
| "flatten (Import t tg) = []"
| "flatten (FromImport t ns) = []"
| "flatten (CallExtension e args) = []"
| "flatten (Other cs) = []"

text \<open>A chain of concatenations whose leaves are string literals and symbols only.\<close>

primrec stringLeaves :: "node \<Rightarrow> bool" where
  "stringLeaves (NodeList cs) = False"
| "stringLeaves (Literal v) = (case v of JStr s \<Rightarrow> True | _ \<Rightarrow> False)"
| "stringLeaves (Symbol s) = True"
| "stringLeaves (Add l r) = (stringLeaves l \<and> stringLeaves r)"
| "stringLeaves (FunCall nm args) = False"
| "stringLeaves (Filter nm args) = False"
| "stringLeaves (Extends t) = False"
| "stringLeaves (Include t) = False"
| "stringLeaves (Import t tg) = False"
| "stringLeaves (FromImport t ns) = False"
| "stringLeaves (CallExtension e args) = False"
| "stringLeaves (Other cs) = False"

text \<open>A chain of concatenations whose leaves are literals of any value and symbols.\<close>

primrec supportedOperand :: "node \<Rightarrow> bool" where
  "supportedOperand (NodeList cs) = False"
| "supportedOperand (Literal v) = True"
| "supportedOperand (Symbol s) = True"
| "supportedOperand (Add l r) = (supportedOperand l \<and> supportedOperand r)"
| "supportedOperand (FunCall nm args) = False"
| "supportedOperand (Filter nm args) = False"
| "supportedOperand (Extends t) = False"
| "supportedOperand (Include t) = False"
| "supportedOperand (Import t tg) = False"
| "supportedOperand (FromImport t ns) = False"
| "supportedOperand (CallExtension e args) = False"
| "supportedOperand (Other cs) = False"

section \<open>Inclusion references\<close>

text \<open>Mapping a function that may throw over an array: the first exception leaves the map.\<close>

fun mapE :: "('a \<Rightarrow> error + 'b) \<Rightarrow> 'a list \<Rightarrow> error + 'b list" where
  "mapE f [] = Inr []"
| "mapE f (x # xs) =
     (case f x of
        Inl e \<Rightarrow> Inl e
      | Inr y \<Rightarrow> (case mapE f xs of Inl e \<Rightarrow> Inl e | Inr ys \<Rightarrow> Inr (y # ys)))"

text \<open>The field \<open>template\<close> of a node; the four directive classes have one.\<close>

definition templateOf :: "node \<Rightarrow> node option" where
  "templateOf n =
     (case n of
        Extends t \<Rightarrow> Some t
      | Include t \<Rightarrow> Some t
      | Import t tg \<Rightarrow> Some t
      | FromImport t ns \<Rightarrow> Some t
      | _ \<Rightarrow> None)"

text \<open>\<open>node.template.value\<close>; reading \<open>value\<close> of a missing \<open>template\<close> throws.\<close>

definition templateValue :: "node \<Rightarrow> error + jsvalue" where
  "templateValue n =
     (case templateOf n of
        None \<Rightarrow> Inl (TypeError ''Cannot read properties of undefined'')
      | Some t \<Rightarrow> Inr (valueOf t))"

text \<open>
  \<open>getDependencies\<close>, on the syntax tree that \<open>nunjucks.parser.parse(source)\<close> returns
  (parsing belongs to the template library and is not modelled).
\<close>

definition getDependencies :: "node \<Rightarrow> error + jsvalue list" where
  "getDependencies nodes =
     (let extendsNodes = findAll KExtends nodes;
          includeNodes = findAll KInclude nodes;
          importNodes = findAll KImport nodes;
          fromImportNodes = findAll KFromImport nodes
      in mapE templateValue (extendsNodes @ includeNodes @ importNodes @ fromImportNodes))"

text \<open>
  For the statement of the property: the directive nodes, the directive nodes of one class
  in document order, and the template name a directive carries.
\<close>

definition isDirective :: "node \<Rightarrow> bool" where
  "isDirective n =
     (classOf n = KExtends \<or> classOf n = KInclude \<or> classOf n = KImport \<or> classOf n = KFromImport)"

definition templateName :: "node \<Rightarrow> jsvalue" where
  "templateName n = (case templateOf n of None \<Rightarrow> JUndefined | Some t \<Rightarrow> valueOf t)"

definition directivesOf :: "kind \<Rightarrow> node \<Rightarrow> node list" where
  "directivesOf k nodes = filter (\<lambda>d. classOf d = k) (descendants nodes)"

section \<open>Assets of a template\<close>

text \<open>
  \<open>Array.prototype.indexOf\<close>: the index of the first element strictly equal to the item,
  or \<open>-1\<close>. The values compared here are primitive values, for which strict equality is
  equality of the values.
\<close>

fun indexFrom :: "'a list \<Rightarrow> 'a \<Rightarrow> int \<Rightarrow> int" where
  "indexFrom [] x k = - 1"
| "indexFrom (y # ys) x k = (if y = x then k else indexFrom ys x (k + 1))"

definition indexOf :: "'a list \<Rightarrow> 'a \<Rightarrow> int" where
  "indexOf xs x = indexFrom xs x 0"

definition isUnique :: "'a \<Rightarrow> int \<Rightarrow> 'a list \<Rightarrow> bool" where
  "isUnique item i list = (indexOf list item = i)"

text \<open>
  \<open>Array.prototype.filter\<close> with a callback that takes the item, its index and the array.
\<close>

fun filterFrom :: "('a \<Rightarrow> int \<Rightarrow> 'a list \<Rightarrow> bool) \<Rightarrow> 'a list \<Rightarrow> int \<Rightarrow> 'a list \<Rightarrow> 'a list" where
  "filterFrom p whole i [] = []"
| "filterFrom p whole i (x # xs) =
     (if p x i whole then x # filterFrom p whole (i + 1) xs else filterFrom p whole (i + 1) xs)"

definition filterIndexed :: "('a \<Rightarrow> int \<Rightarrow> 'a list \<Rightarrow> bool) \<Rightarrow> 'a list \<Rightarrow> 'a list" where
  "filterIndexed p xs = filterFrom p xs 0 xs"

text \<open>
  Modelled from the spec: \<open>getNodesValues\<close> (the module \<open>./get-nodes-values\<close> is not
  among the sources). It collects the value the given function returns for every node of
  the given class, in the order \<open>findAll\<close> finds them, and leaves out the nodes for which
  the function returns no value (a call is a candidate asset reference only if its callee
  is the reserved name).
\<close>

definition getNodesValues :: "node \<Rightarrow> kind \<Rightarrow> (node \<Rightarrow> error + jsvalue) \<Rightarrow> error + jsvalue list" where
  "getNodesValues nodes ty getValue =
     (case mapE getValue (findAll ty nodes) of
        Inl e \<Rightarrow> Inl e
      | Inr vs \<Rightarrow> Inr (filter (\<lambda>v. v \<noteq> JUndefined) vs))"

text \<open>
  Modelled from the spec: \<open>getPossiblePaths\<close> (the module \<open>../get-possible-paths\<close> is not
  among the sources). It expands each logical name against every search directory, in order,
  into the candidate list of the name. How a directory and a name are joined into a path
  is the parameter \<open>resolvePath\<close>.
\<close>

definition getPossiblePaths ::
  "(string \<Rightarrow> jsvalue \<Rightarrow> string) \<Rightarrow> jsvalue list \<Rightarrow> string list \<Rightarrow> (jsvalue \<times> string list) list" where
  "getPossiblePaths resolvePath names searchDirectories =
     map (\<lambda>name. (name, map (\<lambda>dir. resolvePath dir name) searchDirectories)) names"

text \<open>
  Modelled from the spec: \<open>getFirstExistedPath\<close> (the module \<open>../get-first-existed-path\<close>
  is not among the sources). It tries each candidate for existence in order and succeeds with the
  first that exists; it fails (\<open>None\<close>, a rejected promise) if none exists. The file
  system is the parameter \<open>exists\<close>.
\<close>

definition getFirstExistedPath :: "(string \<Rightarrow> bool) \<Rightarrow> string list \<Rightarrow> string option" where
  "getFirstExistedPath exists paths = find exists paths"

text \<open>
  \<open>Promise.all\<close> over promises whose settled states are given (\<open>Inl\<close> the reason of a
  rejected promise, \<open>Inr\<close> the value of a fulfilled one). The result is the list of the
  possible settled states of the combined promise: fulfilled with all values in order when
  every promise fulfils; otherwise rejected with the reason of the promise that rejects
  first in time, which can be any of the rejected ones.
\<close>

definition rejections :: "(error + 'a) list \<Rightarrow> error list" where
  "rejections ps = concat (map (\<lambda>p. case p of Inl e \<Rightarrow> [e] | Inr v \<Rightarrow> []) ps)"

definition fulfilments :: "(error + 'a) list \<Rightarrow> 'a list" where
  "fulfilments ps = concat (map (\<lambda>p. case p of Inl e \<Rightarrow> [] | Inr v \<Rightarrow> [v]) ps)"

definition promiseAll :: "(error + 'a) list \<Rightarrow> (error + 'a list) list" where
  "promiseAll ps = (if rejections ps = [] then [Inr (fulfilments ps)] else map Inl (rejections ps))"

text \<open>
  \<open>getAssets\<close>. An exception of the synchronous part is the only outcome; otherwise the
  outcomes are those of \<open>Promise.all\<close>. \<open>searchAssets\<close> is the array that
  \<open>[].concat(searchAssets)\<close> yields.
\<close>

definition getAssets ::
  "(string \<Rightarrow> bool) \<Rightarrow> (string \<Rightarrow> jsvalue \<Rightarrow> string) \<Rightarrow> node \<Rightarrow> string list
     \<Rightarrow> (error + (jsvalue \<times> string) list) list" where
  "getAssets exists resolvePath nodes searchAssets =
     (case getNodesValues nodes KFunCall getGlobalFnValue of
        Inl e \<Rightarrow> [Inl e]
      | Inr vals \<Rightarrow>
          (let assets = filterIndexed isUnique vals;
               possiblePaths = getPossiblePaths resolvePath assets searchAssets;
               resolvedAssets = map (\<lambda>(path, paths).
                   case getFirstExistedPath exists paths of
                     Some importPath \<Rightarrow> Inr (path, importPath)
                   | None \<Rightarrow> Inl (Error (''Asset \"'' @ toStr path @ ''\" not found'')))
                 possiblePaths
           in promiseAll resolvedAssets))"

text \<open>
  \<open>getDependenciesImports\<close>. \<open>getDependenciesTemplates\<close> (the module
  \<open>../get-dependencies-templates\<close>) is not among the sources and is a parameter.
\<close>

definition getDependenciesImports ::
  "(node \<Rightarrow> jsvalue list) \<Rightarrow> (string \<Rightarrow> bool) \<Rightarrow> (string \<Rightarrow> jsvalue \<Rightarrow> string) \<Rightarrow> node \<Rightarrow> string list
     \<Rightarrow> (error + (jsvalue \<times> string) list) list" where
  "getDependenciesImports getDependenciesTemplates exists resolvePath nodes searchPaths =
     (let templateDeps = getDependenciesTemplates nodes;
          possiblePaths = getPossiblePaths resolvePath templateDeps searchPaths;
          resolvedTemplates = map (\<lambda>(path, paths).
              case getFirstExistedPath exists paths of
                Some importPath \<Rightarrow> Inr (path, importPath)
              | None \<Rightarrow> Inl (Error (''Template \"'' @ toStr path @ ''\" not found'')))
            possiblePaths
      in promiseAll resolvedTemplates)"

section \<open>Usages of extensions\<close>

text \<open>
  An addon descriptor \<open>[name, importPath, instance]\<close>: the declared name, the module path
  and the loaded object, given by its handle.
\<close>

type_synonym addon = "string \<times> string \<times> nat"

text \<open>
  Modelled from the spec: \<open>getUsagesOf\<close> (the module \<open>./get-usages-of\<close> is not among the
  sources). For a node class it traverses all nodes of that class and, for each
  declared candidate item, tests the predicate that the callback gives for a found node;
  it retains the candidate if any node matches. The order is the declared order.
\<close>

definition getUsagesOf :: "kind \<Rightarrow> node \<Rightarrow> 'a list \<Rightarrow> (node \<Rightarrow> 'a \<Rightarrow> bool) \<Rightarrow> 'a list" where
  "getUsagesOf nodeType nodes items callback =
     (let nodesOfType = findAll nodeType nodes
      in filter (\<lambda>item. list_ex (\<lambda>node. callback node item) nodesOfType) items)"

text \<open>The field \<open>extName\<close> of a node; \<open>None\<close> is \<open>undefined\<close>.\<close>

definition extNameOf :: "node \<Rightarrow> extName option" where
  "extNameOf n = (case n of CallExtension e args \<Rightarrow> Some e | _ \<Rightarrow> None)"

text \<open>
  The \<open>extensions\<close> entry that \<open>withDependencies\<close> computes: a descriptor matches a call
  site when \<open>name === extName || instance === extName\<close>.
\<close>

definition usedExtensions :: "node \<Rightarrow> addon list \<Rightarrow> addon list" where
  "usedExtensions nodes extensionsInstances =
     getUsagesOf KCallExtension nodes extensionsInstances
       (\<lambda>node (name, importPath, instance).
          extNameOf node = Some (ByName name) \<or> extNameOf node = Some (ByInstance instance))"

section \<open>Example templates\<close>

text \<open>
  \<open>{{ static("a.png") }}{{ static("b.png") }}{{ other("c.png") }}{{ static("a.png") }}\<close>
\<close>

definition assetsExample :: node where
  "assetsExample =
     NodeList [FunCall (Symbol ''static'') [Literal (JStr ''a.png'')],
               FunCall (Symbol ''static'') [Literal (JStr ''b.png'')],
               FunCall (Symbol ''other'') [Literal (JStr ''c.png'')],
               FunCall (Symbol ''static'') [Literal (JStr ''a.png'')]]"

text \<open>
  A template with two custom tags, the first registered by name and the second as the
  extension object with handle 7.
\<close>

definition extensionsExample :: node where
  "extensionsExample =
     NodeList [CallExtension (ByName ''tag1'') [], CallExtension (ByInstance 7) [Symbol ''x'']]"

section \<open>Rewriting asset paths in the precompiled text\<close>

definition sq :: char where
  "sq = CHR 0x27"

text \<open>
  Modelled from the spec: \<open>toRegExpSource\<close> (the module \<open>../to-regexp-source\<close> is not
  among the sources). It turns a text into the source of a pattern that matches the text
  verbatim: every character with a meaning in a regular expression is escaped with a
  backslash.
\<close>

definition regexSpecial :: "char \<Rightarrow> bool" where
  "regexSpecial c = (c \<in> set (bs # ''.*+?^${}()|[]''))"

definition toRegExpSource :: "string \<Rightarrow> string" where
  "toRegExpSource s = concat (map (\<lambda>c. if regexSpecial c then [bs, c] else [c]) s)"

text \<open>
  \<open>String.prototype.split(sep)\<close> for a non-empty separator: the pieces between the
  occurrences of the separator, found from left to right. \<open>cur\<close> is the piece read so far.
\<close>

function splitFrom :: "string \<Rightarrow> string \<Rightarrow> string \<Rightarrow> string list" where
  "splitFrom sep cur [] = [cur]"
| "splitFrom sep cur (c # s) =
     (if sep \<noteq> [] \<and> prefix sep (c # s)
      then cur # splitFrom sep [] (drop (length sep) (c # s))
      else splitFrom sep (cur @ [c]) s)"
  by pat_completeness auto
termination
  by (relation "measure (\<lambda>(sep, cur, s). length s)") auto

declare splitFrom.simps [simp del]

definition splitString :: "string \<Rightarrow> string \<Rightarrow> string list" where
  "splitString sep s = splitFrom sep [] s"

text \<open>
  Modelled from the spec: \<open>getArgs\<close> and \<open>isDynamicPath\<close> (the module \<open>./assets\<close> is not
  among the sources). A dynamic asset path is an ordered sequence of literal fragments and
  variable placeholders joined by concatenation; its arguments are the variable
  placeholders, the fragments that are not quoted literals. A static path has no
  arguments.
\<close>

definition isDynamicPath :: "string \<Rightarrow> bool" where
  "isDynamicPath path = (1 < length (splitString '' + '' path))"

definition getArgs :: "string \<Rightarrow> string list" where
  "getArgs path =
     (if isDynamicPath path
      then filter (\<lambda>part. \<not> prefix [dq] part) (splitString '' + '' path)
      else [])"

text \<open>
  The regular expressions that \<open>getAssetReplaceRegExp\<close> builds are sequences of literal
  characters and of the capturing group \<open>([^+]+)\<close>. \<open>newRegExp\<close> reads the source of such
  an expression as \<open>new RegExp(source, 'g')\<close> does: a backslash before a character with a
  special meaning makes it literal. It is \<open>None\<close> for a source with any other construct
  of the pattern language.
\<close>

datatype atom =
    Ch char
  | Group

definition groupSource :: string where
  "groupSource = ''([^+]+)''"

function newRegExp :: "string \<Rightarrow> atom list option" where
  "newRegExp [] = Some []"
| "newRegExp (c # s) =
     (if prefix groupSource (c # s)
        then map_option (Cons Group) (newRegExp (drop (length groupSource) (c # s)))
      else if c = bs
        then (case s of
                [] \<Rightarrow> None
              | d # s' \<Rightarrow> if regexSpecial d then map_option (Cons (Ch d)) (newRegExp s') else None)
      else if regexSpecial c then None
      else map_option (Cons (Ch c)) (newRegExp s))"
  by pat_completeness auto
termination
  by (relation "measure length") (auto simp: groupSource_def)

declare newRegExp.simps [simp del]

text \<open>
  Matching at the start of a text, with the backtracking order of the pattern language:
  the group takes the longest run of characters other than \<open>+\<close> first and gives characters
  back one by one, keeping at least one. The result is the captured texts and the rest of
  the text after the match.
\<close>

fun groupTry ::
  "(string \<Rightarrow> (string list \<times> string) option) \<Rightarrow> string \<Rightarrow> nat \<Rightarrow> (string list \<times> string) option" where
  "groupTry k s 0 = None"
| "groupTry k s (Suc n) =
     (case k (drop (Suc n) s) of
        Some (caps, rest) \<Rightarrow> Some (take (Suc n) s # caps, rest)
      | None \<Rightarrow> groupTry k s n)"

primrec matchHere :: "atom list \<Rightarrow> string \<Rightarrow> (string list \<times> string) option" where
  "matchHere [] s = Some ([], s)"
| "matchHere (a # r) s =
     (case a of
        Ch c \<Rightarrow> (case s of [] \<Rightarrow> None | d # s' \<Rightarrow> if d = c then matchHere r s' else None)
      | Group \<Rightarrow> groupTry (matchHere r) s (length (takeWhile (\<lambda>c. c \<noteq> CHR ''+'') s)))"

text \<open>
  \<open>String.prototype.replace(re, fn)\<close> for a global expression: the text is scanned from
  left to right; at the leftmost match the function is called with the matched text, the
  captured texts, the offset of the match and the whole text, and its result replaces the
  match; the scan goes on after the match (after one more character when the match is
  empty). \<open>whole\<close> is the whole text, \<open>off\<close> the offset of the rest \<open>s\<close> in it.
\<close>

function replaceFrom ::
  "atom list \<Rightarrow> (string \<Rightarrow> jsvalue list \<Rightarrow> string) \<Rightarrow> string \<Rightarrow> nat \<Rightarrow> string \<Rightarrow> string" where
  "replaceFrom re fn whole off s =
     (case matchHere re s of
        Some (caps, rest) \<Rightarrow>
          (let m = take (length s - length rest) s;
               out = fn m (map JStr caps @ [JInt (int off), JStr whole])
           in if length rest < length s
              then out @ replaceFrom re fn whole (off + length m) rest
              else (case s of
                      [] \<Rightarrow> out
                    | c # s' \<Rightarrow> out @ c # replaceFrom re fn whole (Suc off) s'))
      | None \<Rightarrow>
          (case s of
             [] \<Rightarrow> []
           | c # s' \<Rightarrow> c # replaceFrom re fn whole (Suc off) s'))"
  by pat_completeness auto
termination
  by (relation "measure (\<lambda>(re, fn, whole, off, s). length s)") auto

declare replaceFrom.simps [simp del]

definition replace :: "atom list \<Rightarrow> (string \<Rightarrow> jsvalue list \<Rightarrow> string) \<Rightarrow> string \<Rightarrow> string" where
  "replace re fn s = replaceFrom re fn s 0 s"

text \<open>\<open>Array.prototype.join()\<close>: the elements as strings, separated by commas.\<close>

definition joinValues :: "jsvalue list \<Rightarrow> string" where
  "joinValues vs =
     join '','' (map (\<lambda>v. case v of JUndefined \<Rightarrow> [] | JNull \<Rightarrow> [] | _ \<Rightarrow> toStr v) vs)"

text \<open>\<open>getAssetReplaceRegExp\<close>, \<open>replaceAssetPath\<close> and \<open>replaceAssets\<close>.\<close>

definition getAssetReplaceRegExp :: "string \<Rightarrow> atom list option" where
  "getAssetReplaceRegExp path =
     (let isDynamicAsset = isDynamicPath path;
          reSource =
            (if isDynamicAsset
             then join ([CHR '' '', bs] @ ''+ '')
                    (map (\<lambda>part. if \<not> prefix [dq] part then ''([^+]+)'' else part)
                       (splitString ([CHR '' '', bs] @ ''+ '') (toRegExpSource path)))
             else toRegExpSource ([dq] @ path @ [dq]))
      in newRegExp reSource)"

definition replaceAssetPath :: "string \<Rightarrow> string \<times> string \<Rightarrow> string option" where
  "replaceAssetPath precompiled asset =
     (case asset of (uuid, path) \<Rightarrow>
        (case getAssetReplaceRegExp path of
           None \<Rightarrow> None
         | Some re \<Rightarrow>
             (let argsCount = length (getArgs path)
              in Some (replace re
                   (\<lambda>match args.
                      let staticArgs = take argsCount args
                      in joinValues (JStr (''_templateAssets['' @ [sq] @ uuid @ [sq] @ '']'') # staticArgs))
                   precompiled))))"

definition replaceAssets :: "string \<Rightarrow> (string \<times> string) list \<Rightarrow> string option" where
  "replaceAssets precompiled assets =
     (if length assets = 0 then Some precompiled
      else foldl (\<lambda>precompiled asset.
                    case precompiled of
                      None \<Rightarrow> None
                    | Some text \<Rightarrow> replaceAssetPath text asset)
             (Some precompiled) assets)"

text \<open>
  For the statement of the properties, in the words of the specification. The path text
  of a dynamic asset is its fragments, rendered and joined with \<open>" + "\<close>. Its pattern has,
  for every literal fragment, the characters of the quoted literal, to be matched verbatim,
  and for every variable fragment one capturing group, the fragments separated by the
  characters of \<open>" + "\<close>. A match is replaced by the lookup in the runtime table with the
  entry's id, followed by the captured texts in their order, separated by commas.
\<close>

definition pathText :: "fragment list \<Rightarrow> string" where
  "pathText frags = join '' + '' (map render frags)"

primrec fragmentPattern :: "fragment \<Rightarrow> atom list" where
  "fragmentPattern (LitFrag s) = map Ch (render (LitFrag s))"
| "fragmentPattern (VarFrag v) = [Group]"

definition patternOf :: "fragment list \<Rightarrow> atom list" where
  "patternOf frags = join (map Ch '' + '') (map fragmentPattern frags)"

primrec isVar :: "fragment \<Rightarrow> bool" where
  "isVar (LitFrag s) = False"
| "isVar (VarFrag v) = True"

definition lookupExpr :: "string \<Rightarrow> string" where
  "lookupExpr uuid = ''_templateAssets['' @ [sq] @ uuid @ [sq] @ '']''"

function rewriteMatches :: "atom list \<Rightarrow> string \<Rightarrow> string \<Rightarrow> string" where
  "rewriteMatches re uuid s =
     (case matchHere re s of
        Some (caps, rest) \<Rightarrow>
          (let out = join '','' (lookupExpr uuid # caps)
           in if length rest < length s
              then out @ rewriteMatches re uuid rest
              else (case s of
                      [] \<Rightarrow> out
                    | c # s' \<Rightarrow> out @ c # rewriteMatches re uuid s'))
      | None \<Rightarrow>
          (case s of
             [] \<Rightarrow> []
           | c # s' \<Rightarrow> c # rewriteMatches re uuid s'))"
  by pat_completeness auto
termination
  by (relation "measure (\<lambda>(re, uuid, s). length s)") auto

declare rewriteMatches.simps [simp del]

text \<open>
  A fragment whose text cannot be taken for a separator of fragments: \<open>" + "\<close> does not
  occur in it, it does not end with \<open>" +"\<close>, and a variable name does not start with a
  double quote.
\<close>

definition plainFragment :: "fragment \<Rightarrow> bool" where
  "plainFragment f =
     (\<not> sublist '' + '' (render f @ '' +'') \<and>
      (case f of LitFrag s \<Rightarrow> True | VarFrag v \<Rightarrow> \<not> prefix [dq] v))"

text \<open>
  The fragments with the captured texts in the places of the variables, from left to
  right (an empty text where the captures run out); and the text that a pattern stands
  for when its groups are filled with the captured texts.
\<close>

fun bindCaptures :: "fragment list \<Rightarrow> string list \<Rightarrow> fragment list" where
  "bindCaptures [] caps = []"
| "bindCaptures (LitFrag s # fs) caps = LitFrag s # bindCaptures fs caps"
| "bindCaptures (VarFrag v # fs) [] = VarFrag [] # bindCaptures fs []"
| "bindCaptures (VarFrag v # fs) (c # caps) = VarFrag c # bindCaptures fs caps"

fun fill :: "atom list \<Rightarrow> string list \<Rightarrow> string" where
  "fill [] caps = []"
| "fill (Ch c # re) caps = c # fill re caps"
| "fill (Group # re) [] = fill re []"
| "fill (Group # re) (c # caps) = c @ fill re caps"

text \<open>Whether the expression matches somewhere in the text.\<close>

fun hasMatch :: "atom list \<Rightarrow> string \<Rightarrow> bool" where
  "hasMatch re [] = (matchHere re [] \<noteq> None)"
| "hasMatch re (c # s) = (matchHere re (c # s) \<noteq> None \<or> hasMatch re s)"

text \<open>The fragments of \<open>static("img/" + name + ".png")\<close> and of \<open>static("a + b" + n)\<close>.\<close>

definition dynamicExample :: "fragment list" where
  "dynamicExample = [LitFrag ''img/'', VarFrag ''name'', LitFrag ''.png'']"

definition spacedExample :: "fragment list" where
  "spacedExample = [LitFrag ''a + b'', VarFrag ''n'']"

section \<open>Properties of the dynamic expression\<close>

lemma join_append:
  "xs \<noteq> [] \<Longrightarrow> ys \<noteq> [] \<Longrightarrow> join sep (xs @ ys) = join sep xs @ sep @ join sep ys"
  by (induction sep xs rule: join.induct) (auto simp: neq_Nil_conv)

lemma stringLeaves_supported: "stringLeaves n \<Longrightarrow> supportedOperand n"
  by (induction n) auto

lemma flatten_nonempty: "supportedOperand n \<Longrightarrow> flatten n \<noteq> []"
  by (induction n) auto

lemma addOperand_supported:
  "supportedOperand n \<Longrightarrow> addOperand n = Inr (join '' + '' (map render (flatten n)))"
proof (induction n)
  case (Add l r)
  then show ?case by (simp add: join_append flatten_nonempty)
qed simp_all

lemma addOperand_unsupported:
  "\<not> supportedOperand n \<Longrightarrow> \<exists>m. addOperand n = Inl (TypeError m)"
proof (induction n)
  case (Add l r)
  show ?case
  proof (cases "supportedOperand l")
    case True
    with Add have "\<not> supportedOperand r" by simp
    with Add True show ?thesis
      by (auto simp: addOperand_supported)
  next
    case False
    with Add show ?thesis by auto
  qed
qed simp_all

text \<open>
  C1. For a concatenation whose leaves are string literals and symbols only,
  \<open>getAddNodeValue\<close> returns the fragments of the flattened concatenation, in order, joined
  with \<open>" + "\<close>, every literal fragment in double quotes and every symbol fragment bare.
  The witness is the argument of \<open>static("img/" + name + ".png")\<close>, also through
  \<open>getGlobalFnValue\<close>.
\<close>

theorem getAddNodeValue_renders:
  assumes "stringLeaves l" and "stringLeaves r"
  shows "getAddNodeValue (Add l r) = Inr (join '' + '' (map render (flatten (Add l r))))"
proof -
  have "supportedOperand (Add l r)"
    using assms by (simp add: stringLeaves_supported)
  then have "addOperand (Add l r) = Inr (join '' + '' (map render (flatten (Add l r))))"
    by (rule addOperand_supported)
  then show ?thesis by simp
qed

theorem getAddNodeValue_renders_witness:
  "stringLeaves (Add (Literal (JStr ''img/'')) (Symbol ''name'')) \<and>
   stringLeaves (Literal (JStr ''.png'')) \<and>
   getAddNodeValue (Add (Add (Literal (JStr ''img/'')) (Symbol ''name'')) (Literal (JStr ''.png'')))
     = Inr ''\"img/\" + name + \".png\"'' \<and>
   getGlobalFnValue (FunCall (Symbol ''static'')
       [Add (Add (Literal (JStr ''img/'')) (Symbol ''name'')) (Literal (JStr ''.png''))])
     = Inr (JStr ''\"img/\" + name + \".png\"'')"
  using getAddNodeValue_renders
          [of "Add (Literal (JStr ''img/'')) (Symbol ''name'')" "Literal (JStr ''.png'')"]
  by (simp add: getGlobalFnValue_def funCallFields_def valueOf_def instanceOf_def dq_def)

text \<open>
  C7, as the code has it. \<open>getAddNodeValue\<close> fails, with a TypeError, exactly when the node
  passed is not a concatenation itself or some operand of the chain is neither a nested
  concatenation, a literal (of any value, not only a string) nor a symbol; otherwise it
  returns a text.
\<close>

theorem getAddNodeValue_fails_iff:
  "(\<exists>m. getAddNodeValue n = Inl (TypeError m)) = (\<not> (instanceOf KAdd n \<and> supportedOperand n))
   \<and> (\<exists>s. getAddNodeValue n = Inr s) = (instanceOf KAdd n \<and> supportedOperand n)"
proof (cases n)
  case (Add l r)
  have "getAddNodeValue n = addOperand n"
    using Add by simp
  moreover have "instanceOf KAdd n"
    using Add by (simp add: instanceOf_def)
  ultimately show ?thesis
    using addOperand_supported [of n] addOperand_unsupported [of n]
    by (cases "supportedOperand n") auto
qed (simp_all add: instanceOf_def)

text \<open>
  C7 as stated fails: a number literal is not a string literal, yet the concatenation
  \<open>"a" + 1\<close> is accepted and rendered with the number in quotes.
\<close>

theorem getAddNodeValue_number_literal_accepted:
  "\<not> stringLeaves (Add (Literal (JStr ''a'')) (Literal (JInt 1))) \<and>
   getAddNodeValue (Add (Literal (JStr ''a'')) (Literal (JInt 1))) = Inr ''\"a\" + \"1\"''"
  by (simp add: dq_def showNat.simps digit_def)

text \<open>
  C10. A call of \<open>static\<close> with an empty argument list makes \<open>getGlobalFnValue\<close> fail with a
  TypeError (it reads \<open>value\<close> of the missing first argument) instead of returning
  \<open>undefined\<close>; so the extraction returns a value for a call of \<open>static\<close> only if the call
  has an argument.
\<close>

theorem getGlobalFnValue_static_no_arguments:
  assumes "funCallFields n = Some (nm, args)" and "valueOf nm = JStr ''static''"
  shows "(args = [] \<longrightarrow> (\<exists>m. getGlobalFnValue n = Inl (TypeError m))) \<and>
         ((\<exists>v. getGlobalFnValue n = Inr v) \<longrightarrow> args \<noteq> [])"
  using assms by (auto simp: getGlobalFnValue_def)

theorem getGlobalFnValue_static_no_arguments_witness:
  "funCallFields (FunCall (Symbol ''static'') []) = Some (Symbol ''static'', []) \<and>
   valueOf (Symbol ''static'') = JStr ''static'' \<and>
   (\<exists>m. getGlobalFnValue (FunCall (Symbol ''static'') []) = Inl (TypeError m)) \<and>
   getGlobalFnValue (FunCall (Symbol ''static'') []) \<noteq> Inr JUndefined"
  using getGlobalFnValue_static_no_arguments [of "FunCall (Symbol ''static'') []" "Symbol ''static''" "[]"]
  by (auto simp: funCallFields_def valueOf_def)

section \<open>Properties of the inclusion references\<close>

lemma findAll_filter:
  "findAll ty n = filter (instanceOf ty) (descendants n)"
  "traverseAndCheck ty n = filter (instanceOf ty) (subtree n)"
proof (induction ty n and ty n rule: findAll_traverseAndCheck.induct)
  case (1 ty n)
  have eq: "map (traverseAndCheck ty) (children n)
      = map (\<lambda>c. filter (instanceOf ty) (subtree c)) (children n)"
    using 1 by (intro map_cong) simp_all
  show ?case
    by (subst findAll.simps, subst descendants.simps, subst eq)
       (simp add: filter_concat comp_def)
next
  case (2 ty obj)
  then show ?case
    by (simp add: traverseAndCheck.simps subtree.simps)
qed

lemma mapE_total: "(\<And>x. x \<in> set xs \<Longrightarrow> f x = Inr (g x)) \<Longrightarrow> mapE f xs = Inr (map g xs)"
  by (induction xs) auto

lemma templateValue_directive: "isDirective d \<Longrightarrow> templateValue d = Inr (templateName d)"
  by (cases d) (auto simp: isDirective_def templateValue_def templateName_def templateOf_def)

lemma mset_directives:
  "mset (filter (\<lambda>d. classOf d = KExtends) xs @ filter (\<lambda>d. classOf d = KInclude) xs @
         filter (\<lambda>d. classOf d = KImport) xs @ filter (\<lambda>d. classOf d = KFromImport) xs)
   = mset (filter isDirective xs)"
  by (induction xs) (auto simp: isDirective_def)

text \<open>
  C3, as the code has it. \<open>getDependencies\<close> returns the template name of every extends,
  include, import and from-import directive of the tree, duplicates preserved, grouped by
  the class of the directive (all extends first, then all includes, then all imports, then
  all from-imports) and in document order within each group. So the result has the same
  elements, with the same multiplicities, as the directives in document order.
\<close>

theorem getDependencies_grouped:
  "getDependencies nodes =
     Inr (map templateName (directivesOf KExtends nodes @ directivesOf KInclude nodes @
                            directivesOf KImport nodes @ directivesOf KFromImport nodes)) \<and>
   (\<exists>vs. getDependencies nodes = Inr vs \<and>
      mset vs = mset (map templateName (filter isDirective (descendants nodes))))"
proof -
  let ?ds = "directivesOf KExtends nodes @ directivesOf KInclude nodes @
             directivesOf KImport nodes @ directivesOf KFromImport nodes"
  have inst: "instanceOf KExtends = (\<lambda>d. classOf d = KExtends)"
    "instanceOf KInclude = (\<lambda>d. classOf d = KInclude)"
    "instanceOf KImport = (\<lambda>d. classOf d = KImport)"
    "instanceOf KFromImport = (\<lambda>d. classOf d = KFromImport)"
    by (auto simp: instanceOf_def fun_eq_iff)
  have all: "\<And>d. d \<in> set ?ds \<Longrightarrow> isDirective d"
    by (auto simp: directivesOf_def isDirective_def)
  have "mapE templateValue ?ds = Inr (map templateName ?ds)"
    using all by (intro mapE_total) (simp add: templateValue_directive)
  then have 1: "getDependencies nodes = Inr (map templateName ?ds)"
    by (simp add: getDependencies_def Let_def findAll_filter inst directivesOf_def)
  have "mset ?ds = mset (filter isDirective (descendants nodes))"
    unfolding directivesOf_def by (rule mset_directives)
  then have "mset (map templateName ?ds)
      = mset (map templateName (filter isDirective (descendants nodes)))"
    by (metis mset_map)
  with 1 show ?thesis by simp
qed

text \<open>
  C3 as stated fails: for the template \<open>{% import "a" as x %}{% include "b" %}\<close> the
  names in document order are \<open>a, b\<close>, and \<open>getDependencies\<close> returns \<open>b, a\<close>.
\<close>

theorem getDependencies_not_document_order:
  "getDependencies (NodeList [Import (Literal (JStr ''a'')) (Symbol ''x''), Include (Literal (JStr ''b''))])
     = Inr [JStr ''b'', JStr ''a''] \<and>
   map templateName (filter isDirective (descendants
     (NodeList [Import (Literal (JStr ''a'')) (Symbol ''x''), Include (Literal (JStr ''b''))])))
     = [JStr ''a'', JStr ''b'']"
  by (simp add: getDependencies_def instanceOf_def isDirective_def
      templateValue_def templateName_def templateOf_def valueOf_def
      findAll.simps traverseAndCheck.simps descendants.simps subtree.simps)

section \<open>Properties of the assets, the references and the extensions\<close>

lemma indexFrom_notin: "x \<notin> set ys \<Longrightarrow> indexFrom ys x k = - 1"
  by (induction ys arbitrary: k) auto

lemma indexFrom_first: "x \<notin> set pre \<Longrightarrow> indexFrom (pre @ x # post) x k = k + int (length pre)"
  by (induction pre arbitrary: k) auto

lemma indexFrom_in: "x \<in> set pre \<Longrightarrow> indexFrom (pre @ post) x k < k + int (length pre)"
proof (induction pre arbitrary: k)
  case Nil
  then show ?case by simp
next
  case (Cons y pre)
  show ?case
  proof (cases "y = x")
    case True
    then show ?thesis by simp
  next
    case False
    with Cons.prems have "x \<in> set pre" by simp
    from Cons.IH [OF this, of "k + 1"] False show ?thesis by simp
  qed
qed

lemma isUnique_iff: "isUnique x (int (length pre)) (pre @ x # post) = (x \<notin> set pre)"
  using indexFrom_first [of x pre post 0] indexFrom_in [of x pre "x # post" 0]
  by (auto simp: isUnique_def indexOf_def)

lemma remdups_snoc: "remdups (ys @ [x]) = filter (\<lambda>y. y \<noteq> x) (remdups ys) @ [x]"
  by (induction ys) auto

lemma filterFrom_isUnique:
  "filterFrom isUnique (pre @ xs) (int (length pre)) xs
     = filter (\<lambda>x. x \<notin> set pre) (rev (remdups (rev xs)))"
proof (induction xs arbitrary: pre)
  case Nil
  then show ?case by simp
next
  case (Cons x xs)
  have "filterFrom isUnique ((pre @ [x]) @ xs) (int (length (pre @ [x]))) xs
      = filter (\<lambda>y. y \<notin> set (pre @ [x])) (rev (remdups (rev xs)))"
    by (rule Cons.IH)
  then have IH: "filterFrom isUnique (pre @ x # xs) (int (length pre) + 1) xs
      = filter (\<lambda>y. y \<notin> set pre \<and> y \<noteq> x) (rev (remdups (rev xs)))"
    by (simp add: conj_commute add.commute)
  show ?case
    using IH by (simp add: isUnique_iff remdups_snoc rev_filter conj_commute add.commute)
qed

lemma filterIndexed_isUnique: "filterIndexed isUnique xs = rev (remdups (rev xs))"
  using filterFrom_isUnique [of "[]" xs] by (simp add: filterIndexed_def)

lemma promiseAll_fulfilled: "Inr res \<in> set (promiseAll ps) \<Longrightarrow> ps = map Inr res"
proof -
  assume a: "Inr res \<in> set (promiseAll ps)"
  have r: "rejections ps = []" and f: "res = fulfilments ps"
    using a by (auto simp: promiseAll_def split: if_splits)
  have "rejections ps = [] \<Longrightarrow> ps = map Inr (fulfilments ps)"
    by (induction ps) (auto simp: rejections_def fulfilments_def split: sum.splits)
  with r f show ?thesis by simp
qed

lemma resolved_names:
  "map (\<lambda>(path, paths). case g paths of Some q \<Rightarrow> Inr (path, q) | None \<Rightarrow> Inl (e path)) pps
     = map Inr res \<Longrightarrow> map fst res = map fst pps"
proof (induction pps arbitrary: res)
  case Nil
  then show ?case by simp
next
  case (Cons p pps)
  then show ?case
    by (cases res; cases p) (auto split: option.splits)
qed

lemma getPossiblePaths_names: "map fst (getPossiblePaths resolvePath names dirs) = names"
  by (simp add: getPossiblePaths_def comp_def)

text \<open>
  C4. The asset list that \<open>getAssets\<close> passes to resolution holds each distinct extracted
  path text exactly once, at the place of its first occurrence, and every fulfilled result
  of \<open>getAssets\<close> has exactly one entry for each of them, in that order.
\<close>

theorem getAssets_unique:
  assumes "getNodesValues nodes KFunCall getGlobalFnValue = Inr vals"
  shows "filterIndexed isUnique vals = rev (remdups (rev vals)) \<and>
         distinct (filterIndexed isUnique vals) \<and>
         set (filterIndexed isUnique vals) = set vals \<and>
         (\<forall>res. Inr res \<in> set (getAssets exists resolvePath nodes searchAssets)
            \<longrightarrow> map fst res = filterIndexed isUnique vals)"
proof -
  have "map fst res = filterIndexed isUnique vals"
    if "Inr res \<in> set (getAssets exists resolvePath nodes searchAssets)" for res
  proof -
    let ?pps = "getPossiblePaths resolvePath (filterIndexed isUnique vals) searchAssets"
    let ?rs = "map (\<lambda>(path, paths).
                   case getFirstExistedPath exists paths of
                     Some importPath \<Rightarrow> Inr (path, importPath)
                   | None \<Rightarrow> Inl (Error (''Asset \"'' @ toStr path @ ''\" not found'')))
                 ?pps"
    from that assms have "Inr res \<in> set (promiseAll ?rs)"
      by (simp add: getAssets_def Let_def)
    then have "?rs = map Inr res" by (rule promiseAll_fulfilled)
    then have "map fst res = map fst ?pps" by (rule resolved_names)
    then show ?thesis by (simp add: getPossiblePaths_names)
  qed
  then show ?thesis
    by (simp add: filterIndexed_isUnique)
qed

lemma assetsExample_values:
  "getNodesValues assetsExample KFunCall getGlobalFnValue
     = Inr [JStr ''a.png'', JStr ''b.png'', JStr ''a.png'']"
  by (simp add: assetsExample_def getNodesValues_def findAll.simps traverseAndCheck.simps
      instanceOf_def getGlobalFnValue_def funCallFields_def valueOf_def)

lemma assetsExample_assets:
  "getAssets (\<lambda>p. True) (\<lambda>dir name. dir @ ''/'' @ toStr name) assetsExample [''x'']
     = [Inr [(JStr ''a.png'', ''x/a.png''), (JStr ''b.png'', ''x/b.png'')]]"
  by (simp add: getAssets_def assetsExample_values filterIndexed_def isUnique_def indexOf_def
      Let_def getPossiblePaths_def getFirstExistedPath_def promiseAll_def rejections_def
      fulfilments_def)

lemma assetsExample_unique:
  "filterIndexed isUnique [JStr ''a.png'', JStr ''b.png'', JStr ''a.png'']
     = [JStr ''a.png'', JStr ''b.png'']"
  by (simp add: filterIndexed_def isUnique_def indexOf_def)

theorem getAssets_unique_witness:
  "getNodesValues assetsExample KFunCall getGlobalFnValue
     = Inr [JStr ''a.png'', JStr ''b.png'', JStr ''a.png''] \<and>
   filterIndexed isUnique [JStr ''a.png'', JStr ''b.png'', JStr ''a.png'']
     = [JStr ''a.png'', JStr ''b.png''] \<and>
   distinct (filterIndexed isUnique [JStr ''a.png'', JStr ''b.png'', JStr ''a.png'']) \<and>
   getAssets (\<lambda>p. True) (\<lambda>dir name. dir @ ''/'' @ toStr name) assetsExample [''x'']
     = [Inr [(JStr ''a.png'', ''x/a.png''), (JStr ''b.png'', ''x/b.png'')]]"
proof -
  have "distinct (filterIndexed isUnique [JStr ''a.png'', JStr ''b.png'', JStr ''a.png''])"
    using getAssets_unique [OF assetsExample_values] by blast
  then show ?thesis
    using assetsExample_values assetsExample_unique assetsExample_assets by blast
qed

lemma set_rejections: "set (rejections ps) = {e. Inl e \<in> set ps}"
  by (induction ps) (auto simp: rejections_def split: sum.splits)

lemma promiseAll_rejected:
  "Inl e \<in> set ps \<Longrightarrow> set (promiseAll ps) = Inl ` {e. Inl e \<in> set ps}"
proof -
  assume "Inl e \<in> set ps"
  then have "e \<in> set (rejections ps)" by (simp add: set_rejections)
  then have "rejections ps \<noteq> []" by auto
  then show ?thesis by (simp add: promiseAll_def set_rejections)
qed

lemma resolve_missing:
  fixes g :: "string list \<Rightarrow> string option"
    and msg :: "'n \<Rightarrow> error" and cands :: "'n \<Rightarrow> string list"
  assumes "name \<in> set names" and "g (cands name) = None"
  defines "rs \<equiv> map (\<lambda>(path, paths). case g paths of
                           Some q \<Rightarrow> Inr (path, q)
                         | None \<Rightarrow> Inl (msg path)) (map (\<lambda>n. (n, cands n)) names)"
  shows "Inl (msg name) \<in> set (promiseAll rs) \<and>
         (\<forall>out \<in> set (promiseAll rs). \<exists>n \<in> set names. g (cands n) = None \<and> out = Inl (msg n))"
proof -
  have mem: "Inl e \<in> set rs \<longleftrightarrow> (\<exists>n \<in> set names. g (cands n) = None \<and> e = msg n)" for e
    by (auto simp: rs_def image_iff split: option.splits)
  then have "Inl (msg name) \<in> set rs" using assms(1,2) by blast
  then have "set (promiseAll rs) = Inl ` {e. Inl e \<in> set rs}"
    by (rule promiseAll_rejected)
  then show ?thesis using mem assms(1,2) by auto
qed

lemma set_unique: "set (filterIndexed isUnique vals) = set vals"
  by (simp add: filterIndexed_isUnique)

text \<open>
  C9. If a template reference (an asset reference) has no existing candidate path, the
  resolution is rejected, the rejection naming that reference as a template (an asset) is a
  possible outcome, and every possible outcome is an error \<open>Template "n" not found\<close>
  (\<open>Asset "n" not found\<close>) for a reference \<open>n\<close> that has no existing candidate path.
\<close>

theorem missing_reference_rejects:
  "(name \<in> set (getDependenciesTemplates nodes) \<and>
    getFirstExistedPath exists (map (\<lambda>dir. resolvePath dir name) searchPaths) = None
    \<longrightarrow>
      Inl (Error (''Template \"'' @ toStr name @ ''\" not found''))
        \<in> set (getDependenciesImports getDependenciesTemplates exists resolvePath nodes searchPaths) \<and>
      (\<forall>out \<in> set (getDependenciesImports getDependenciesTemplates exists resolvePath nodes searchPaths).
         \<exists>n \<in> set (getDependenciesTemplates nodes).
           getFirstExistedPath exists (map (\<lambda>dir. resolvePath dir n) searchPaths) = None \<and>
           out = Inl (Error (''Template \"'' @ toStr n @ ''\" not found'')))) \<and>
   (getNodesValues nodes KFunCall getGlobalFnValue = Inr vals \<and> name \<in> set vals \<and>
    getFirstExistedPath exists (map (\<lambda>dir. resolvePath dir name) searchAssets) = None
    \<longrightarrow>
      Inl (Error (''Asset \"'' @ toStr name @ ''\" not found''))
        \<in> set (getAssets exists resolvePath nodes searchAssets) \<and>
      (\<forall>out \<in> set (getAssets exists resolvePath nodes searchAssets).
         \<exists>n \<in> set vals.
           getFirstExistedPath exists (map (\<lambda>dir. resolvePath dir n) searchAssets) = None \<and>
           out = Inl (Error (''Asset \"'' @ toStr n @ ''\" not found''))))"
proof (intro conjI impI)
  assume a: "name \<in> set (getDependenciesTemplates nodes) \<and>
    getFirstExistedPath exists (map (\<lambda>dir. resolvePath dir name) searchPaths) = None"
  from resolve_missing [of name "getDependenciesTemplates nodes" "getFirstExistedPath exists"
      "\<lambda>n. map (\<lambda>dir. resolvePath dir n) searchPaths"
      "\<lambda>path. Error (''Template \"'' @ toStr path @ ''\" not found'')"] a
  show "Inl (Error (''Template \"'' @ toStr name @ ''\" not found''))
        \<in> set (getDependenciesImports getDependenciesTemplates exists resolvePath nodes searchPaths)"
    and "\<forall>out \<in> set (getDependenciesImports getDependenciesTemplates exists resolvePath nodes searchPaths).
         \<exists>n \<in> set (getDependenciesTemplates nodes).
           getFirstExistedPath exists (map (\<lambda>dir. resolvePath dir n) searchPaths) = None \<and>
           out = Inl (Error (''Template \"'' @ toStr n @ ''\" not found''))"
    by (simp_all add: getDependenciesImports_def getPossiblePaths_def Let_def)
next
  assume a: "getNodesValues nodes KFunCall getGlobalFnValue = Inr vals \<and> name \<in> set vals \<and>
    getFirstExistedPath exists (map (\<lambda>dir. resolvePath dir name) searchAssets) = None"
  from resolve_missing [of name "filterIndexed isUnique vals" "getFirstExistedPath exists"
      "\<lambda>n. map (\<lambda>dir. resolvePath dir n) searchAssets"
      "\<lambda>path. Error (''Asset \"'' @ toStr path @ ''\" not found'')"] a
  show "Inl (Error (''Asset \"'' @ toStr name @ ''\" not found''))
        \<in> set (getAssets exists resolvePath nodes searchAssets)"
    and "\<forall>out \<in> set (getAssets exists resolvePath nodes searchAssets).
         \<exists>n \<in> set vals.
           getFirstExistedPath exists (map (\<lambda>dir. resolvePath dir n) searchAssets) = None \<and>
           out = Inl (Error (''Asset \"'' @ toStr n @ ''\" not found''))"
    by (simp_all add: getAssets_def getPossiblePaths_def Let_def set_unique)
qed

lemma assetsExample_missing:
  "getFirstExistedPath (\<lambda>p. False) (map (\<lambda>dir. dir @ ''/'' @ toStr (JStr ''a.png'')) [''d1'', ''d2''])
     = None"
  by (simp add: getFirstExistedPath_def)

theorem missing_reference_rejects_witness:
  "Inl (Error ''Template \"a.png\" not found'')
     \<in> set (getDependenciesImports (\<lambda>nodes. [JStr ''a.png'']) (\<lambda>p. False)
           (\<lambda>dir name. dir @ ''/'' @ toStr name) assetsExample [''d1'', ''d2'']) \<and>
   Inl (Error ''Asset \"a.png\" not found'')
     \<in> set (getAssets (\<lambda>p. False) (\<lambda>dir name. dir @ ''/'' @ toStr name) assetsExample
           [''d1'', ''d2''])"
  using missing_reference_rejects [of "JStr ''a.png''" "\<lambda>nodes. [JStr ''a.png'']" assetsExample
          "\<lambda>p. False" "\<lambda>dir name. dir @ ''/'' @ toStr name" "[''d1'', ''d2'']"
          "[JStr ''a.png'', JStr ''b.png'', JStr ''a.png'']" "[''d1'', ''d2'']"]
    assetsExample_values assetsExample_missing
  by simp

text \<open>
  C8. A declared extension descriptor is retained exactly when some call-extension node
  of the tree names it, by the descriptor's declared name or by its instance; and when
  every descriptor is declared once, every retained descriptor appears once.
\<close>

theorem usedExtensions_iff:
  "(d \<in> set (usedExtensions nodes exts)) =
     (d \<in> set exts \<and>
      (\<exists>n \<in> set (descendants nodes).
         instanceOf KCallExtension n \<and>
         (extNameOf n = Some (ByName (fst d)) \<or> extNameOf n = Some (ByInstance (snd (snd d)))))) \<and>
   (distinct exts \<longrightarrow> distinct (usedExtensions nodes exts))"
  by (auto simp: usedExtensions_def getUsagesOf_def list_ex_iff findAll_filter)

theorem usedExtensions_iff_witness:
  "usedExtensions extensionsExample
       [(''tag1'', ''./tag1.js'', 1), (''tag2'', ''./tag2.js'', 7), (''tag3'', ''./tag3.js'', 3)]
     = [(''tag1'', ''./tag1.js'', 1), (''tag2'', ''./tag2.js'', 7)] \<and>
   distinct [(''tag1'', ''./tag1.js'', 1::nat), (''tag2'', ''./tag2.js'', 7), (''tag3'', ''./tag3.js'', 3)] \<and>
   distinct (usedExtensions extensionsExample
       [(''tag1'', ''./tag1.js'', 1), (''tag2'', ''./tag2.js'', 7), (''tag3'', ''./tag3.js'', 3)])"
proof -
  have d: "distinct [(''tag1'', ''./tag1.js'', 1::nat), (''tag2'', ''./tag2.js'', 7), (''tag3'', ''./tag3.js'', 3)]"
    by simp
  have "usedExtensions extensionsExample
       [(''tag1'', ''./tag1.js'', 1), (''tag2'', ''./tag2.js'', 7), (''tag3'', ''./tag3.js'', 3)]
     = [(''tag1'', ''./tag1.js'', 1), (''tag2'', ''./tag2.js'', 7)]"
    by (simp add: usedExtensions_def getUsagesOf_def extensionsExample_def findAll.simps
        traverseAndCheck.simps instanceOf_def extNameOf_def)
  then show ?thesis
    using d usedExtensions_iff [of "(''tag1'', ''./tag1.js'', 1)" extensionsExample
        "[(''tag1'', ''./tag1.js'', 1), (''tag2'', ''./tag2.js'', 7), (''tag3'', ''./tag3.js'', 3)]"]
    by simp
qed

section \<open>Properties of the rewriting\<close>

text \<open>
  C6. With an empty list of asset entries \<open>replaceAssets\<close> returns the precompiled text
  unchanged.
\<close>

theorem replaceAssets_empty: "replaceAssets precompiled [] = Some precompiled"
  by (simp add: replaceAssets_def)

section \<open>Splitting and joining\<close>

lemma prefix_append_long:
  "prefix xs (ys @ zs) \<Longrightarrow> length xs \<le> length ys \<Longrightarrow> prefix xs ys"
  by (rule prefix_length_prefix [of xs "ys @ zs" ys]) auto

lemma splitFrom_last:
  assumes "\<not> sublist sep (p @ butlast sep)"
  shows "splitFrom sep cur p = [cur @ p]"
  using assms
proof (induction p arbitrary: cur)
  case Nil
  show ?case by (simp add: splitFrom.simps)
next
  case (Cons x p)
  have no: "\<not> sublist sep (p @ butlast sep)"
    using Cons.prems by (simp add: sublist_Cons_right)
  have "\<not> prefix sep (x # p)"
  proof
    assume "prefix sep (x # p)"
    then have "prefix sep ((x # p) @ butlast sep)" by (rule prefix_prefix)
    then show False using Cons.prems by auto
  qed
  then have "splitFrom sep cur (x # p) = splitFrom sep (cur @ [x]) p"
    by (simp add: splitFrom.simps)
  then show ?case using Cons.IH [OF no] by simp
qed

lemma splitFrom_part:
  assumes "sep \<noteq> []" and "\<not> sublist sep (p @ butlast sep)"
  shows "splitFrom sep cur (p @ sep @ rest) = (cur @ p) # splitFrom sep [] rest"
  using assms(2)
proof (induction p arbitrary: cur)
  case Nil
  obtain c sep' where sep: "sep = c # sep'" using assms(1) by (cases sep) auto
  have "splitFrom sep cur (sep @ rest) = cur # splitFrom sep [] (drop (length sep) (sep @ rest))"
    unfolding sep by (subst append_Cons, subst splitFrom.simps) simp
  then show ?case by simp
next
  case (Cons x p)
  have no: "\<not> sublist sep (p @ butlast sep)"
    using Cons.prems by (simp add: sublist_Cons_right)
  have len: "length sep \<le> length ((x # p) @ butlast sep)"
    using assms(1) by (cases sep) auto
  have "\<not> prefix sep (x # p @ sep @ rest)"
  proof
    assume "prefix sep (x # p @ sep @ rest)"
    moreover have "x # p @ sep @ rest = ((x # p) @ butlast sep) @ (last sep # rest)"
      using assms(1) append_butlast_last_id [of sep] by (metis append.assoc append_Cons append_Nil)
    ultimately have "prefix sep (((x # p) @ butlast sep) @ (last sep # rest))"
      by simp
    then have "prefix sep ((x # p) @ butlast sep)"
      using len by (rule prefix_append_long)
    then show False using Cons.prems by auto
  qed
  then have "splitFrom sep cur ((x # p) @ sep @ rest) = splitFrom sep (cur @ [x]) (p @ sep @ rest)"
    by (simp add: splitFrom.simps)
  then show ?case using Cons.IH [OF no] by simp
qed

lemma split_join:
  assumes "sep \<noteq> []" and "parts \<noteq> []" and "\<forall>p \<in> set parts. \<not> sublist sep (p @ butlast sep)"
  shows "splitString sep (join sep parts) = parts"
  using assms(2,3)
proof (induction parts)
  case Nil
  then show ?case by simp
next
  case (Cons x xs)
  show ?case
  proof (cases xs)
    case Nil
    then show ?thesis using Cons.prems splitFrom_last [of sep x "[]"] by (simp add: splitString_def)
  next
    case (Cons y ys)
    have "splitFrom sep [] (x @ sep @ join sep xs) = ([] @ x) # splitFrom sep [] (join sep xs)"
      using Cons.prems by (intro splitFrom_part assms(1)) simp
    moreover have "splitString sep (join sep xs) = xs"
      using Cons.IH Cons.prems Cons by simp
    ultimately show ?thesis using Cons by (simp add: splitString_def)
  qed
qed

section \<open>The pattern of a dynamic asset path\<close>

lemma special_chars [simp]:
  "\<not> regexSpecial (CHR '' '')" "regexSpecial bs" "regexSpecial (CHR ''+'')" "\<not> regexSpecial dq"
  "regexSpecial (CHR ''('')" "bs \<noteq> CHR '' ''" "bs \<noteq> CHR ''+''" "bs \<noteq> dq" "bs \<noteq> CHR ''(''"
  "CHR '' '' \<noteq> bs" "CHR ''+'' \<noteq> bs" "dq \<noteq> bs" "CHR ''('' \<noteq> bs"
  by (simp_all add: regexSpecial_def bs_def dq_def)

lemma toRegExpSource_simps [simp]:
  "toRegExpSource [] = []"
  "toRegExpSource (c # s) = (if regexSpecial c then [bs, c] else [c]) @ toRegExpSource s"
  "toRegExpSource (s @ t) = toRegExpSource s @ toRegExpSource t"
  by (simp_all add: toRegExpSource_def)

lemma toRegExpSource_join:
  "toRegExpSource (join sep parts) = join (toRegExpSource sep) (map toRegExpSource parts)"
  by (induction sep parts rule: join.induct) simp_all

lemma escaped_separator_prefix:
  "prefix [bs, CHR ''+'', CHR '' ''] (toRegExpSource q) \<Longrightarrow> prefix ''+ '' q"
proof -
  assume a: "prefix [bs, CHR ''+'', CHR '' ''] (toRegExpSource q)"
  then obtain d q' where q: "q = d # q'" by (cases q) auto
  from a q have d: "d = CHR ''+''" and b: "prefix [CHR '' ''] (toRegExpSource q')"
    by (auto split: if_splits)
  from b obtain e q'' where q': "q' = e # q''" by (cases q') auto
  from b q' have "e = CHR '' ''" by (auto split: if_splits)
  with q q' d show ?thesis by simp
qed

lemma escaped_separator_sublist:
  "sublist ([CHR '' '', bs] @ ''+ '') (toRegExpSource q) \<Longrightarrow> sublist '' + '' q"
proof (induction q)
  case Nil
  then show ?case by simp
next
  case (Cons c q)
  show ?case
  proof (cases "regexSpecial c")
    case True
    with Cons.prems have "sublist ([CHR '' '', bs] @ ''+ '') (toRegExpSource q)"
      by (auto simp: sublist_Cons_right)
    then show ?thesis using Cons.IH by (simp add: sublist_Cons_right)
  next
    case False
    with Cons.prems have "prefix ([CHR '' '', bs] @ ''+ '') (c # toRegExpSource q)
        \<or> sublist ([CHR '' '', bs] @ ''+ '') (toRegExpSource q)"
      by (simp add: sublist_Cons_right)
    then show ?thesis
    proof
      assume "prefix ([CHR '' '', bs] @ ''+ '') (c # toRegExpSource q)"
      then have c: "c = CHR '' ''" and "prefix [bs, CHR ''+'', CHR '' ''] (toRegExpSource q)"
        by auto
      then have "prefix ''+ '' q" by (intro escaped_separator_prefix)
      with c show ?thesis by (simp add: sublist_Cons_right)
    next
      assume "sublist ([CHR '' '', bs] @ ''+ '') (toRegExpSource q)"
      then show ?thesis using Cons.IH by (simp add: sublist_Cons_right)
    qed
  qed
qed

lemma escaped_part_clean:
  assumes "\<not> sublist '' + '' (p @ '' +'')"
  shows "\<not> sublist ([CHR '' '', bs] @ ''+ '') (toRegExpSource p @ butlast ([CHR '' '', bs] @ ''+ ''))"
proof
  assume "sublist ([CHR '' '', bs] @ ''+ '') (toRegExpSource p @ butlast ([CHR '' '', bs] @ ''+ ''))"
  then have "sublist ([CHR '' '', bs] @ ''+ '') (toRegExpSource (p @ '' +''))"
    by simp
  then have "sublist '' + '' (p @ '' +'')" by (rule escaped_separator_sublist)
  with assms show False by simp
qed

lemma newRegExp_escaped:
  "newRegExp (toRegExpSource t @ rest) = map_option ((@) (map Ch t)) (newRegExp rest)"
proof (induction t)
  case Nil
  show ?case by (simp add: option.map_ident)
next
  case (Cons c t)
  show ?case
  proof (cases "regexSpecial c")
    case True
    then show ?thesis using Cons.IH
      by (simp add: newRegExp.simps groupSource_def option.map_comp comp_def)
  next
    case False
    then have "c \<noteq> CHR ''(''" "c \<noteq> bs" by auto
    with False show ?thesis using Cons.IH
      by (simp add: newRegExp.simps groupSource_def option.map_comp comp_def)
  qed
qed

lemma newRegExp_group:
  "newRegExp (groupSource @ rest) = map_option (Cons Group) (newRegExp rest)"
  by (simp add: newRegExp.simps groupSource_def)

lemma escaped_separator: "toRegExpSource '' + '' = [CHR '' '', bs] @ ''+ ''"
  by simp

lemma prefix_dq_escaped: "prefix [dq] (toRegExpSource v) = prefix [dq] v"
  by (cases v) auto

lemma plain_render_clean:
  "plainFragment f \<Longrightarrow> \<not> sublist '' + '' (render f @ butlast '' + '')"
  by (simp add: plainFragment_def)

lemma split_pathText:
  assumes "frags \<noteq> []" and "list_all plainFragment frags"
  shows "splitString '' + '' (pathText frags) = map render frags"
  unfolding pathText_def
  using assms by (intro split_join) (auto simp: list_all_iff plainFragment_def)

lemma isDynamicPath_pathText:
  assumes "2 \<le> length frags" and "list_all plainFragment frags"
  shows "isDynamicPath (pathText frags)"
proof -
  have "frags \<noteq> []" using assms(1) by auto
  then show ?thesis using assms by (simp add: isDynamicPath_def split_pathText)
qed

lemma filter_args:
  "list_all plainFragment frags \<Longrightarrow>
   filter (\<lambda>part. \<not> prefix [dq] part) (map render frags) = map render (filter isVar frags)"
proof (induction frags)
  case Nil
  then show ?case by simp
next
  case (Cons f frags)
  then show ?case by (cases f) (auto simp: plainFragment_def)
qed

lemma getArgs_pathText:
  assumes "2 \<le> length frags" and "list_all plainFragment frags"
  shows "getArgs (pathText frags) = map render (filter isVar frags)"
proof -
  have "frags \<noteq> []" using assms(1) by auto
  then show ?thesis
    using assms by (simp add: getArgs_def isDynamicPath_pathText split_pathText filter_args)
qed

lemma pieces_of_fragments:
  "list_all plainFragment frags \<Longrightarrow>
   map (\<lambda>part. if \<not> prefix [dq] part then ''([^+]+)'' else part)
     (map (\<lambda>f. toRegExpSource (render f)) frags)
   = map (\<lambda>f. case f of LitFrag s \<Rightarrow> toRegExpSource (render f) | VarFrag v \<Rightarrow> groupSource) frags"
proof (induction frags)
  case Nil
  then show ?case by simp
next
  case (Cons f frags)
  then show ?case
    by (cases f) (auto simp: plainFragment_def prefix_dq_escaped groupSource_def)
qed

lemma newRegExp_pieces:
  "frags \<noteq> [] \<Longrightarrow>
   newRegExp (join ([CHR '' '', bs] @ ''+ '')
       (map (\<lambda>f. case f of LitFrag s \<Rightarrow> toRegExpSource (render f) | VarFrag v \<Rightarrow> groupSource) frags)
     @ rest)
   = map_option ((@) (patternOf frags)) (newRegExp rest)"
proof (induction frags arbitrary: rest)
  case Nil
  then show ?case by simp
next
  case (Cons f frags)
  let ?piece = "\<lambda>f. case f of LitFrag s \<Rightarrow> toRegExpSource (render f) | VarFrag v \<Rightarrow> groupSource"
  have cons: "(@) [Group] = (#) Group"
    by (simp add: fun_eq_iff)
  have one: "newRegExp (?piece f @ r) = map_option ((@) (fragmentPattern f)) (newRegExp r)" for r
    by (cases f) (simp_all only: fragment.case fragmentPattern.simps newRegExp_escaped
        newRegExp_group cons)
  show ?case
  proof (cases frags)
    case Nil
    then show ?thesis using one [of rest] by (simp add: patternOf_def)
  next
    case (Cons g gs)
    have sep: "newRegExp (([CHR '' '', bs] @ ''+ '') @ r) = map_option ((@) (map Ch '' + '')) (newRegExp r)" for r
      using newRegExp_escaped [of "'' + ''" r] by (simp only: escaped_separator)
    have "frags \<noteq> []" using Cons by simp
    note IH = Cons.IH [OF this]
    have "join ([CHR '' '', bs] @ ''+ '') (map ?piece (f # frags)) @ rest
        = ?piece f @ ([CHR '' '', bs] @ ''+ '') @ (join ([CHR '' '', bs] @ ''+ '') (map ?piece frags) @ rest)"
      using Cons by simp
    then have "newRegExp (join ([CHR '' '', bs] @ ''+ '') (map ?piece (f # frags)) @ rest)
        = map_option ((@) (fragmentPattern f))
            (map_option ((@) (map Ch '' + ''))
               (map_option ((@) (patternOf frags)) (newRegExp rest)))"
      by (simp only: one sep IH)
    moreover have "patternOf (f # frags) = fragmentPattern f @ map Ch '' + '' @ patternOf frags"
      using Cons by (simp add: patternOf_def)
    ultimately show ?thesis
      by (simp add: option.map_comp comp_def)
  qed
qed

lemma getAssetReplaceRegExp_pathText:
  assumes "2 \<le> length frags" and "list_all plainFragment frags"
  shows "getAssetReplaceRegExp (pathText frags) = Some (patternOf frags)"
proof -
  have ne: "frags \<noteq> []" using assms(1) by auto
  have esc: "toRegExpSource (pathText frags)
      = join ([CHR '' '', bs] @ ''+ '') (map (\<lambda>f. toRegExpSource (render f)) frags)"
    by (simp add: pathText_def toRegExpSource_join comp_def)
  have clean: "\<forall>p \<in> set (map (\<lambda>f. toRegExpSource (render f)) frags).
      \<not> sublist ([CHR '' '', bs] @ ''+ '') (p @ butlast ([CHR '' '', bs] @ ''+ ''))"
    using assms(2) by (auto simp: list_all_iff plainFragment_def dest!: escaped_part_clean)
  have "splitString ([CHR '' '', bs] @ ''+ '') (toRegExpSource (pathText frags))
      = map (\<lambda>f. toRegExpSource (render f)) frags"
    unfolding esc using ne clean by (intro split_join) simp_all
  then have "map (\<lambda>part. if \<not> prefix [dq] part then ''([^+]+)'' else part)
         (splitString ([CHR '' '', bs] @ ''+ '') (toRegExpSource (pathText frags)))
      = map (\<lambda>f. case f of LitFrag s \<Rightarrow> toRegExpSource (render f) | VarFrag v \<Rightarrow> groupSource) frags"
    by (simp only: pieces_of_fragments [OF assms(2)])
  then have "getAssetReplaceRegExp (pathText frags)
      = newRegExp (join ([CHR '' '', bs] @ ''+ '')
          (map (\<lambda>f. case f of LitFrag s \<Rightarrow> toRegExpSource (render f) | VarFrag v \<Rightarrow> groupSource) frags))"
    using isDynamicPath_pathText [OF assms]
    by (simp only: getAssetReplaceRegExp_def Let_def if_True)
  also have "\<dots> = Some (patternOf frags)"
    using newRegExp_pieces [OF ne, of "[]"] by (simp add: newRegExp.simps)
  finally show ?thesis .
qed

section \<open>Matching and replacing\<close>

lemma groupTry_Some:
  "groupTry k s n = Some (caps, rest) \<Longrightarrow>
   \<exists>m caps'. 0 < m \<and> m \<le> n \<and> k (drop m s) = Some (caps', rest) \<and> caps = take m s # caps'"
proof (induction n)
  case 0
  then show ?case by simp
next
  case (Suc n)
  show ?case
  proof (cases "k (drop (Suc n) s)")
    case None
    with Suc.prems have "groupTry k s n = Some (caps, rest)" by simp
    from Suc.IH [OF this] obtain m caps' where "0 < m" "m \<le> n"
      "k (drop m s) = Some (caps', rest)" "caps = take m s # caps'"
      by blast
    then have "0 < m \<and> m \<le> Suc n \<and> k (drop m s) = Some (caps', rest) \<and> caps = take m s # caps'"
      by simp
    then show ?thesis by blast
  next
    case (Some r)
    with Suc.prems show ?thesis
      by (cases r) (auto intro!: exI [of _ "Suc n"])
  qed
qed

lemma matchHere_captures:
  "matchHere re s = Some (caps, rest) \<Longrightarrow> length caps = length (filter (\<lambda>a. a = Group) re)"
proof (induction re arbitrary: s caps rest)
  case Nil
  then show ?case by simp
next
  case (Cons a re)
  show ?case
  proof (cases a)
    case (Ch c)
    with Cons.prems obtain s' where "matchHere re s' = Some (caps, rest)"
      by (auto split: list.splits if_splits)
    from Cons.IH [OF this] Ch show ?thesis by simp
  next
    case Group
    with Cons.prems obtain m caps' where "matchHere re (drop m s) = Some (caps', rest)"
      and "caps = take m s # caps'"
      by (auto dest!: groupTry_Some)
    with Cons.IH [of "drop m s" caps' rest] Group show ?thesis by simp
  qed
qed

lemma groups_patternOf:
  "length (filter (\<lambda>a. a = Group) (patternOf frags)) = length (filter isVar frags)"
proof (induction frags)
  case Nil
  then show ?case by (simp add: patternOf_def)
next
  case (Cons f frags)
  have one: "length (filter (\<lambda>a. a = Group) (fragmentPattern f)) = (if isVar f then 1 else 0)"
    by (cases f) (simp_all add: filter_map comp_def)
  show ?case
  proof (cases frags)
    case Nil
    then show ?thesis using one by (simp add: patternOf_def)
  next
    case (Cons g gs)
    then have "patternOf (f # frags) = fragmentPattern f @ map Ch '' + '' @ patternOf frags"
      by (simp add: patternOf_def)
    then show ?thesis using one Cons.IH by simp
  qed
qed

lemma matchHere_literal:
  "matchHere (map Ch t @ re) s = (if prefix t s then matchHere re (drop (length t) s) else None)"
proof (induction t arbitrary: s)
  case Nil
  then show ?case by simp
next
  case (Cons c t)
  then show ?case by (cases s) auto
qed

lemma joinValues_strings: "joinValues (map JStr xs) = join '','' xs"
proof -
  have "map (\<lambda>v. case v of JUndefined \<Rightarrow> [] | JNull \<Rightarrow> [] | _ \<Rightarrow> toStr v) (map JStr xs) = xs"
    by (induction xs) simp_all
  then show ?thesis by (simp only: joinValues_def)
qed

lemma callback_result:
  assumes "length caps = n"
  shows "(let staticArgs = take n (map JStr caps @ [JInt off, JStr whole])
          in joinValues (JStr (''_templateAssets['' @ [sq] @ uuid @ [sq] @ '']'') # staticArgs))
       = join '','' (lookupExpr uuid # caps)"
proof -
  have "take n (map JStr caps @ [JInt off, JStr whole]) = map JStr caps"
    using assms by simp
  then have "JStr (''_templateAssets['' @ [sq] @ uuid @ [sq] @ '']'')
        # take n (map JStr caps @ [JInt off, JStr whole])
      = map JStr (lookupExpr uuid # caps)"
    by (simp add: lookupExpr_def)
  then show ?thesis
    by (simp only: Let_def joinValues_strings)
qed

lemma replaceFrom_rewrite:
  assumes "\<And>m caps off. length caps = length (filter (\<lambda>a. a = Group) re) \<Longrightarrow>
             fn m (map JStr caps @ [JInt off, JStr whole]) = join '','' (lookupExpr uuid # caps)"
  shows "replaceFrom re fn whole off s = rewriteMatches re uuid s"
proof (induction s arbitrary: off rule: length_induct)
  case (1 s)
  note IH = 1 [rule_format]
  show ?case
  proof (cases "matchHere re s")
    case None
    then show ?thesis
      by (subst replaceFrom.simps, subst rewriteMatches.simps)
         (simp add: IH split: list.splits)
  next
    case (Some r)
    obtain caps rest where r: "r = (caps, rest)" by (cases r)
    have len: "length caps = length (filter (\<lambda>a. a = Group) re)"
      using Some r by (intro matchHere_captures) simp
    note out = assms [OF len]
    show ?thesis
    proof (cases "length rest < length s")
      case True
      then show ?thesis
        using Some r
        by (subst replaceFrom.simps, subst rewriteMatches.simps) (simp add: out IH Let_def)
    next
      case False
      then show ?thesis
        using Some r
        by (subst replaceFrom.simps, subst rewriteMatches.simps)
           (simp add: out IH Let_def split: list.splits)
    qed
  qed
qed

lemma hasMatch_None: "\<not> hasMatch re s \<Longrightarrow> matchHere re s = None"
  by (cases s; cases "matchHere re s") auto

lemma replaceFrom_no_match: "\<not> hasMatch re s \<Longrightarrow> replaceFrom re fn whole off s = s"
proof (induction s arbitrary: off)
  case Nil
  then have "matchHere re [] = None" by (rule hasMatch_None)
  then show ?case by (subst replaceFrom.simps) simp
next
  case (Cons c s)
  from Cons.prems have m: "matchHere re (c # s) = None" by (rule hasMatch_None)
  from Cons.prems have "\<not> hasMatch re s" by simp
  then have "replaceFrom re fn whole (Suc off) s = s" by (rule Cons.IH)
  with m show ?case by (subst replaceFrom.simps) simp
qed

lemma replaceAssetPath_no_match:
  assumes "getAssetReplaceRegExp (snd asset) = Some re" and "\<not> hasMatch re text"
  shows "replaceAssetPath text asset = Some text"
  using assms
  by (cases asset) (simp add: replaceAssetPath_def replace_def replaceFrom_no_match Let_def)

lemma replaceAssetPath_Some:
  "replaceAssetPath text asset = Some text' \<Longrightarrow> getAssetReplaceRegExp (snd asset) \<noteq> None"
  by (cases asset) (auto simp: replaceAssetPath_def split: option.splits)

lemma foldl_replace_None:
  "foldl (\<lambda>precompiled asset. case precompiled of None \<Rightarrow> None
                                  | Some text \<Rightarrow> replaceAssetPath text asset) None assets = None"
  by (induction assets) simp_all

lemma foldl_replace_Some:
  "foldl (\<lambda>precompiled asset. case precompiled of None \<Rightarrow> None
                                  | Some text \<Rightarrow> replaceAssetPath text asset) (Some p) assets
     = Some once \<Longrightarrow> \<forall>asset \<in> set assets. getAssetReplaceRegExp (snd asset) \<noteq> None"
proof (induction assets arbitrary: p)
  case Nil
  then show ?case by simp
next
  case (Cons a assets)
  show ?case
  proof (cases "replaceAssetPath p a")
    case None
    with Cons.prems show ?thesis by (simp add: foldl_replace_None)
  next
    case (Some p')
    with Cons.prems Cons.IH [of p'] replaceAssetPath_Some [OF Some] show ?thesis by simp
  qed
qed

lemma foldl_replace_fixed:
  "\<forall>asset \<in> set assets. replaceAssetPath text asset = Some text \<Longrightarrow>
   foldl (\<lambda>precompiled asset. case precompiled of None \<Rightarrow> None
                                  | Some text \<Rightarrow> replaceAssetPath text asset) (Some text) assets
     = Some text"
  by (induction assets) simp_all

lemma matchHere_fill:
  "matchHere re s = Some (caps, rest) \<Longrightarrow> s = fill re caps @ rest"
proof (induction re arbitrary: s caps rest)
  case Nil
  then show ?case by simp
next
  case (Cons a re)
  show ?case
  proof (cases a)
    case (Ch c)
    with Cons.prems obtain s' where s: "s = c # s'" and "matchHere re s' = Some (caps, rest)"
      by (auto split: list.splits if_splits)
    from Cons.IH [OF this(2)] s Ch show ?thesis by simp
  next
    case Group
    with Cons.prems obtain m caps' where "matchHere re (drop m s) = Some (caps', rest)"
      and c: "caps = take m s # caps'"
      by (auto dest!: groupTry_Some)
    from Cons.IH [OF this(1)] have "drop m s = fill re caps' @ rest" .
    then have "s = take m s @ fill re caps' @ rest"
      by (metis append_take_drop_id)
    with c Group show ?thesis by simp
  qed
qed

lemma matchHere_captured_runs:
  "matchHere re s = Some (caps, rest) \<Longrightarrow> list_all (\<lambda>c. c \<noteq> [] \<and> CHR ''+'' \<notin> set c) caps"
proof (induction re arbitrary: s caps rest)
  case Nil
  then show ?case by simp
next
  case (Cons a re)
  show ?case
  proof (cases a)
    case (Ch c)
    with Cons.prems obtain s' where "matchHere re s' = Some (caps, rest)"
      by (auto split: list.splits if_splits)
    from Cons.IH [OF this] show ?thesis .
  next
    case Group
    with Cons.prems obtain m caps' where m: "0 < m" "m \<le> length (takeWhile (\<lambda>c. c \<noteq> CHR ''+'') s)"
      and r: "matchHere re (drop m s) = Some (caps', rest)" and c: "caps = take m s # caps'"
      by (auto dest!: groupTry_Some)
    have "take m s = take m (takeWhile (\<lambda>c. c \<noteq> CHR ''+'') s)"
      using m(2) by (metis append_eq_conv_conj takeWhile_dropWhile_id min.absorb2 take_take
          min.commute)
    then have "set (take m s) \<subseteq> set (takeWhile (\<lambda>c. c \<noteq> CHR ''+'') s)"
      by (metis set_take_subset)
    then have plus: "CHR ''+'' \<notin> set (take m s)"
      by (auto dest: set_takeWhileD)
    have "length (takeWhile (\<lambda>c. c \<noteq> CHR ''+'') s) \<le> length s"
      by (rule length_takeWhile_le)
    with m have "take m s \<noteq> []" by auto
    with plus c Cons.IH [OF r] show ?thesis by simp
  qed
qed

lemma fill_literal: "fill (map Ch t @ re) caps = t @ fill re caps"
  by (induction t) simp_all

lemma patternOf_Cons:
  "patternOf (f # frags)
     = fragmentPattern f @ (if frags = [] then [] else map Ch '' + '' @ patternOf frags)"
  by (cases frags) (simp_all add: patternOf_def)

lemma pathText_Cons:
  "pathText (f # frags) = render f @ (if frags = [] then [] else '' + '' @ pathText frags)"
  by (cases frags) (simp_all add: pathText_def)

lemma bind_Nil_iff: "(bindCaptures frags caps = []) = (frags = [])"
  by (induction frags caps rule: bindCaptures.induct) simp_all

lemma fill_fragments:
  "fill (patternOf frags @ re) caps
     = pathText (bindCaptures frags caps) @ fill re (drop (length (filter isVar frags)) caps)"
proof (induction frags caps rule: bindCaptures.induct)
  case (1 caps)
  show ?case by (simp add: patternOf_def pathText_def)
next
  case (2 s fs caps)
  then show ?case
    by (simp add: patternOf_Cons pathText_Cons bind_Nil_iff fill_literal del: map_append)
next
  case (3 v fs)
  then show ?case
    by (simp add: patternOf_Cons pathText_Cons bind_Nil_iff fill_literal)
next
  case (4 v fs c caps)
  then show ?case
    by (simp add: patternOf_Cons pathText_Cons bind_Nil_iff fill_literal)
qed

lemma match_is_instance:
  assumes "matchHere (patternOf frags) s = Some (caps, rest)"
  shows "s = pathText (bindCaptures frags caps) @ rest"
proof -
  have "fill (patternOf frags @ []) caps = pathText (bindCaptures frags caps) @ []"
    by (simp only: fill_fragments fill.simps)
  then have "fill (patternOf frags) caps = pathText (bindCaptures frags caps)"
    by simp
  with matchHere_fill [OF assms] show ?thesis by simp
qed

text \<open>
  C2, as the code has it. For a dynamic asset entry with at least two fragments, none of
  which can be taken for a separator of fragments (\<open>plainFragment\<close>), the rewriter builds
  the pattern in which every literal fragment is its quoted text, matched verbatim, and
  every variable fragment is one capturing group for a run of characters other than
  \<open>+\<close>; the known argument count is the number of variable fragments; every match captures
  one non-empty text without \<open>+\<close> for each variable fragment and is the path text with
  the captured texts in the places of the variables; and the rewriting replaces every match by the
  lookup in the runtime table with the entry's id, followed by the captured texts from
  left to right, separated by commas. The offset and the input, which the callback receives
  after the captures, are discarded.
\<close>

theorem replaceAssetPath_dynamic:
  assumes "2 \<le> length frags" and "list_all plainFragment frags"
  shows "getAssetReplaceRegExp (pathText frags) = Some (patternOf frags) \<and>
         length (getArgs (pathText frags)) = length (filter isVar frags) \<and>
         (\<forall>s caps rest. matchHere (patternOf frags) s = Some (caps, rest)
             \<longrightarrow> length caps = length (filter isVar frags) \<and>
                 list_all (\<lambda>c. c \<noteq> [] \<and> CHR ''+'' \<notin> set c) caps \<and>
                 s = pathText (bindCaptures frags caps) @ rest) \<and>
         replaceAssetPath precompiled (uuid, pathText frags)
           = Some (rewriteMatches (patternOf frags) uuid precompiled)"
proof -
  have re: "getAssetReplaceRegExp (pathText frags) = Some (patternOf frags)"
    using assms by (rule getAssetReplaceRegExp_pathText)
  have args: "length (getArgs (pathText frags)) = length (filter isVar frags)"
    using assms by (simp add: getArgs_pathText)
  have caps: "length caps = length (filter isVar frags) \<and>
      list_all (\<lambda>c. c \<noteq> [] \<and> CHR ''+'' \<notin> set c) caps \<and>
      s = pathText (bindCaptures frags caps) @ rest"
    if "matchHere (patternOf frags) s = Some (caps, rest)" for s caps rest
    using matchHere_captures [OF that] matchHere_captured_runs [OF that] match_is_instance [OF that]
    by (simp add: groups_patternOf)
  have "replaceFrom (patternOf frags)
          (\<lambda>match args.
              let staticArgs = take (length (getArgs (pathText frags))) args
              in joinValues (JStr (''_templateAssets['' @ [sq] @ uuid @ [sq] @ '']'') # staticArgs))
          precompiled 0 precompiled
        = rewriteMatches (patternOf frags) uuid precompiled"
    by (rule replaceFrom_rewrite) (simp only: args groups_patternOf callback_result)
  then have "replaceAssetPath precompiled (uuid, pathText frags)
      = Some (rewriteMatches (patternOf frags) uuid precompiled)"
    by (simp only: replaceAssetPath_def re replace_def Let_def prod.case option.case)
  with re args caps show ?thesis by blast
qed

text \<open>
  Every pattern source that \<open>getAssetReplaceRegExp\<close> builds is within the modelled pattern
  language, so the rewriting returns a text for every text and every list of entries.
\<close>

lemma splitFrom_skip:
  "\<not> prefix sep (c # s) \<Longrightarrow> splitFrom sep cur (c # s) = splitFrom sep (cur @ [c]) s"
  by (simp add: splitFrom.simps)

lemma splitFrom_hit:
  "sep \<noteq> [] \<Longrightarrow> prefix sep (c # s) \<Longrightarrow>
   splitFrom sep cur (c # s) = cur # splitFrom sep [] (drop (length sep) (c # s))"
  by (simp add: splitFrom.simps)

lemma splitFrom_escaped:
  "\<exists>ts. splitFrom ([CHR '' '', bs] @ ''+ '') (toRegExpSource t0) (toRegExpSource q)
          = map toRegExpSource ts"
proof (induction q arbitrary: t0 rule: length_induct)
  case (1 q)
  note IH = 1 [rule_format]
  let ?sep = "[CHR '' '', bs] @ ''+ ''"
  show ?case
  proof (cases q)
    case Nil
    have "splitFrom ?sep (toRegExpSource t0) [] = map toRegExpSource [t0]"
      by (simp add: splitFrom.simps)
    then show ?thesis unfolding Nil toRegExpSource_simps by blast
  next
    case (Cons c q')
    show ?thesis
    proof (cases "regexSpecial c")
      case True
      then have c: "c \<noteq> CHR '' ''" by auto
      have "\<not> prefix ?sep (bs # c # toRegExpSource q')" by simp
      then have "splitFrom ?sep (toRegExpSource t0) (bs # c # toRegExpSource q')
          = splitFrom ?sep (toRegExpSource t0 @ [bs]) (c # toRegExpSource q')"
        by (rule splitFrom_skip)
      moreover have "\<not> prefix ?sep (c # toRegExpSource q')" using c by simp
      then have "splitFrom ?sep (toRegExpSource t0 @ [bs]) (c # toRegExpSource q')
          = splitFrom ?sep ((toRegExpSource t0 @ [bs]) @ [c]) (toRegExpSource q')"
        by (rule splitFrom_skip)
      ultimately have "splitFrom ?sep (toRegExpSource t0) (toRegExpSource q)
          = splitFrom ?sep (toRegExpSource (t0 @ [c])) (toRegExpSource q')"
        using True by (simp add: Cons)
      moreover have "length q' < length q" using Cons by simp
      ultimately show ?thesis using IH [of q' "t0 @ [c]"] by simp
    next
      case False
      show ?thesis
      proof (cases "prefix ?sep (c # toRegExpSource q')")
        case True
        then have p: "prefix [bs, CHR ''+'', CHR '' ''] (toRegExpSource q')"
          unfolding append_Cons append_Nil Cons_prefix_Cons by blast
        from p have "prefix ''+ '' q'" by (rule escaped_separator_prefix)
        then obtain r where q': "q' = ''+ '' @ r" by (auto simp: prefix_def)
        have "splitFrom ?sep (toRegExpSource t0) (c # toRegExpSource q')
            = toRegExpSource t0 # splitFrom ?sep [] (drop (length ?sep) (c # toRegExpSource q'))"
        proof (rule splitFrom_hit)
          show "?sep \<noteq> []" by simp
          show "prefix ?sep (c # toRegExpSource q')" by (rule True)
        qed
        moreover have "drop (length ?sep) (c # toRegExpSource q') = toRegExpSource r"
          by (simp add: q')
        ultimately have "splitFrom ?sep (toRegExpSource t0) (toRegExpSource q)
            = toRegExpSource t0 # splitFrom ?sep (toRegExpSource []) (toRegExpSource r)"
          using False by (simp add: Cons)
        moreover have "length r < length q" using Cons q' by simp
        moreover obtain ts where "splitFrom ?sep (toRegExpSource []) (toRegExpSource r)
            = map toRegExpSource ts"
          using IH [of r "[]"] calculation(2) by blast
        ultimately have "splitFrom ?sep (toRegExpSource t0) (toRegExpSource q)
            = map toRegExpSource (t0 # ts)"
          by simp
        then show ?thesis by blast
      next
        case no: False
        then have "splitFrom ?sep (toRegExpSource t0) (c # toRegExpSource q')
            = splitFrom ?sep (toRegExpSource t0 @ [c]) (toRegExpSource q')"
          by (rule splitFrom_skip)
        then have "splitFrom ?sep (toRegExpSource t0) (toRegExpSource q)
            = splitFrom ?sep (toRegExpSource (t0 @ [c])) (toRegExpSource q')"
          using False by (simp add: Cons)
        moreover have "length q' < length q" using Cons by simp
        ultimately show ?thesis using IH [of q' "t0 @ [c]"] by simp
      qed
    qed
  qed
qed

lemma append_sections: "(@) ([] :: 'a list) = (\<lambda>x. x)" "(@) [a] = (#) a"
  by (simp_all add: fun_eq_iff)

lemma newRegExp_units:
  assumes "\<forall>p \<in> set ps. \<exists>a. \<forall>rest. newRegExp (p @ rest) = map_option ((@) a) (newRegExp rest)"
    and "\<forall>rest. newRegExp (sep @ rest) = map_option ((@) b) (newRegExp rest)"
  shows "\<exists>a. \<forall>rest. newRegExp (join sep ps @ rest) = map_option ((@) a) (newRegExp rest)"
  using assms(1)
proof (induction ps)
  case Nil
  have "\<forall>rest. newRegExp (join sep [] @ rest) = map_option ((@) []) (newRegExp rest)"
    by (simp add: option.map_ident append_sections)
  then show ?case by blast
next
  case (Cons p ps)
  from Cons.prems obtain a where a: "\<And>rest. newRegExp (p @ rest) = map_option ((@) a) (newRegExp rest)"
    by auto
  show ?case
  proof (cases ps)
    case Nil
    then show ?thesis using a by auto
  next
    case (Cons p' ps')
    from Cons.IH Cons.prems obtain a' where
      a': "\<And>rest. newRegExp (join sep ps @ rest) = map_option ((@) a') (newRegExp rest)"
      by auto
    have assoc: "(@) (a @ b @ a') = (\<lambda>x. a @ b @ a' @ x)"
      by (simp add: fun_eq_iff)
    have "newRegExp (join sep (p # ps) @ rest) = map_option ((@) (a @ b @ a')) (newRegExp rest)" for rest
      using a [of "sep @ join sep ps @ rest"] assms(2) a' Cons
      by (simp add: option.map_comp comp_def assoc)
    then show ?thesis by blast
  qed
qed

lemma getAssetReplaceRegExp_total: "\<exists>re. getAssetReplaceRegExp path = Some re"
proof (cases "isDynamicPath path")
  case False
  have "newRegExp (toRegExpSource ([dq] @ path @ [dq]) @ []) = Some (map Ch ([dq] @ path @ [dq]))"
    by (simp only: newRegExp_escaped) (simp add: newRegExp.simps)
  then show ?thesis using False by (simp add: getAssetReplaceRegExp_def)
next
  case True
  obtain ts where ts: "splitString ([CHR '' '', bs] @ ''+ '') (toRegExpSource path) = map toRegExpSource ts"
    using splitFrom_escaped [of "[]" path] by (auto simp: splitString_def)
  let ?ps = "map (\<lambda>part. if \<not> prefix [dq] part then ''([^+]+)'' else part) (map toRegExpSource ts)"
  have unit: "\<forall>p \<in> set ?ps. \<exists>a. \<forall>rest. newRegExp (p @ rest) = map_option ((@) a) (newRegExp rest)"
  proof
    fix p assume "p \<in> set ?ps"
    then obtain t where "p = ''([^+]+)'' \<or> p = toRegExpSource t" by auto
    then show "\<exists>a. \<forall>rest. newRegExp (p @ rest) = map_option ((@) a) (newRegExp rest)"
    proof
      assume "p = ''([^+]+)''"
      then have "\<forall>rest. newRegExp (p @ rest) = map_option ((@) [Group]) (newRegExp rest)"
        using newRegExp_group by (simp add: groupSource_def append_sections)
      then show ?thesis by blast
    next
      assume "p = toRegExpSource t"
      then show ?thesis using newRegExp_escaped by blast
    qed
  qed
  have sep: "\<forall>rest. newRegExp (([CHR '' '', bs] @ ''+ '') @ rest)
      = map_option ((@) (map Ch '' + '')) (newRegExp rest)"
    using newRegExp_escaped [of "'' + ''"] by (simp only: escaped_separator) simp
  from newRegExp_units [OF unit sep] obtain a where
    "\<And>rest. newRegExp (join ([CHR '' '', bs] @ ''+ '') ?ps @ rest) = map_option ((@) a) (newRegExp rest)"
    by blast
  from this [of "[]"] have "newRegExp (join ([CHR '' '', bs] @ ''+ '') ?ps) = Some a"
    by (simp add: newRegExp.simps)
  then show ?thesis using True ts by (simp add: getAssetReplaceRegExp_def Let_def)
qed

lemma replaceAssetPath_total: "\<exists>once. replaceAssetPath precompiled asset = Some once"
  using getAssetReplaceRegExp_total [of "snd asset"]
  by (cases asset) (auto simp: replaceAssetPath_def)

lemma replaceAssets_total: "\<exists>once. replaceAssets precompiled assets = Some once"
proof -
  have "\<exists>once. foldl (\<lambda>precompiled asset. case precompiled of None \<Rightarrow> None
                                  | Some text \<Rightarrow> replaceAssetPath text asset)
                (Some precompiled) assets = Some once"
  proof (induction assets arbitrary: precompiled)
    case Nil
    show ?case by simp
  next
    case (Cons a assets)
    obtain t where "replaceAssetPath precompiled a = Some t"
      using replaceAssetPath_total by blast
    then show ?case using Cons.IH [of t] by simp
  qed
  then show ?thesis by (simp add: replaceAssets_def)
qed

text \<open>
  C5, as the code has it. If, after one application of \<open>replaceAssets\<close>, no pattern of
  the asset list matches anywhere in the rewritten text, a second application with the
  same list returns the rewritten text unchanged.
\<close>

theorem replaceAssets_idempotent_if_no_match_left:
  assumes "replaceAssets precompiled assets = Some once"
    and "list_all (\<lambda>asset. case getAssetReplaceRegExp (snd asset) of
                               None \<Rightarrow> True
                             | Some re \<Rightarrow> \<not> hasMatch re once) assets"
  shows "replaceAssets once assets = Some once"
proof (cases "assets = []")
  case True
  then show ?thesis by (simp add: replaceAssets_def)
next
  case False
  with assms(1) have some: "\<forall>asset \<in> set assets. getAssetReplaceRegExp (snd asset) \<noteq> None"
    by (auto simp: replaceAssets_def dest: foldl_replace_Some)
  have "replaceAssetPath once asset = Some once" if "asset \<in> set assets" for asset
  proof -
    from some that obtain re where re: "getAssetReplaceRegExp (snd asset) = Some re"
      by auto
    with assms(2) that have "\<not> hasMatch re once"
      by (auto simp: list_all_iff)
    with re show ?thesis by (rule replaceAssetPath_no_match)
  qed
  then show ?thesis
    using False by (simp add: replaceAssets_def foldl_replace_fixed)
qed

section \<open>The rewriting on examples\<close>

lemmas rewriting_eval =
  replaceAssets_def replaceAssetPath_def getAssetReplaceRegExp_def isDynamicPath_def getArgs_def
  splitString_def splitFrom.simps toRegExpSource_def regexSpecial_def newRegExp.simps groupSource_def
  replace_def replaceFrom.simps rewriteMatches.simps joinValues_def lookupExpr_def pathText_def
  patternOf_def plainFragment_def sublist_Cons_right dq_def bs_def sq_def Let_def

lemma dynamicExample_plain: "2 \<le> length dynamicExample" "list_all plainFragment dynamicExample"
  by (simp_all add: dynamicExample_def plainFragment_def sublist_Cons_right dq_def)

lemma dynamicExample_text: "pathText dynamicExample = ''\"img/\" + name + \".png\"''"
  by (simp add: dynamicExample_def pathText_def dq_def)

lemma dynamicExample_pattern:
  "patternOf dynamicExample = map Ch ''\"img/\" + '' @ [Group] @ map Ch '' + \".png\"''"
  by (simp add: dynamicExample_def patternOf_def dq_def)

lemma dynamicExample_rewrite:
  "rewriteMatches (map Ch ''\"img/\" + '' @ [Group] @ map Ch '' + \".png\"'') ''u1''
     ''[\"img/\" + l(c, \"name\") + \".png\"])''
   = ''[_templateAssets['' @ [sq] @ ''u1'' @ [sq] @ ''],l(c, \"name\")])''"
  by (simp add: rewriting_eval)

theorem replaceAssetPath_dynamic_witness:
  "2 \<le> length dynamicExample \<and> list_all plainFragment dynamicExample \<and>
   pathText dynamicExample = ''\"img/\" + name + \".png\"'' \<and>
   getAssetReplaceRegExp ''\"img/\" + name + \".png\"''
     = Some (map Ch ''\"img/\" + '' @ [Group] @ map Ch '' + \".png\"'') \<and>
   replaceAssetPath ''[\"img/\" + l(c, \"name\") + \".png\"])'' (''u1'', ''\"img/\" + name + \".png\"'')
     = Some (''[_templateAssets['' @ [sq] @ ''u1'' @ [sq] @ ''],l(c, \"name\")])'')"
  using replaceAssetPath_dynamic [OF dynamicExample_plain,
      of "''[\"img/\" + l(c, \"name\") + \".png\"])''" "''u1''"]
    dynamicExample_plain
  by (simp only: dynamicExample_text dynamicExample_pattern dynamicExample_rewrite)

text \<open>
  C2 as stated fails in two ways. The group of a variable fragment takes any run of
  characters other than \<open>+\<close>, not one argument: for the entry of \<open>static(n + ".png")\<close> and
  the text \<open>f(a, x + ".png")\<close> the match starts at the start of the text, the captured
  text is \<open>f(a, x\<close>, and the lookup is put before it. And a literal fragment that contains
  \<open>" + "\<close> is not matched verbatim: for the entry of \<open>static("a + b" + n)\<close> the pattern
  built is \<open>"a \+ ([^+]+) \+ ([^+]+)\<close>, and the text \<open>"a + b" + x\<close> is replaced by the
  lookup followed by \<open>b"\<close> and \<open>x\<close>, where the argument is \<open>x\<close> alone.
\<close>

theorem replaceAssetPath_not_one_argument:
  "getAssetReplaceRegExp ''n + \".png\"'' = Some ([Group] @ map Ch '' + \".png\"'') \<and>
   matchHere ([Group] @ map Ch '' + \".png\"'') ''f(a, x + \".png\")'' = Some ([''f(a, x''], '')'') \<and>
   replaceAssetPath ''f(a, x + \".png\")'' (''u'', ''n + \".png\"'')
     = Some (''_templateAssets['' @ [sq] @ ''u'' @ [sq] @ ''],f(a, x)'') \<and>
   pathText spacedExample = ''\"a + b\" + n'' \<and>
   patternOf spacedExample = map Ch ''\"a + b\" + '' @ [Group] \<and>
   getAssetReplaceRegExp (pathText spacedExample)
     = Some (map Ch ''\"a + '' @ [Group] @ map Ch '' + '' @ [Group]) \<and>
   rewriteMatches (patternOf spacedExample) ''u'' ''\"a + b\" + x''
     = ''_templateAssets['' @ [sq] @ ''u'' @ [sq] @ ''],x'' \<and>
   replaceAssetPath ''\"a + b\" + x'' (''u'', pathText spacedExample)
     = Some (''_templateAssets['' @ [sq] @ ''u'' @ [sq] @ ''],b\",x'')"
  by (simp add: spacedExample_def rewriting_eval)

text \<open>
  C5 as stated fails: the lookup expression that the first application inserts,
  \<open>_templateAssets['u'],"a"\<close>, has no match of the pattern, yet together with the text
  that follows it the pattern matches again, and the second application changes the text.
\<close>

theorem replaceAssets_twice_differs:
  "getAssetReplaceRegExp ''\"a\" + n + \"b\"''
     = Some (map Ch ''\"a\" + '' @ [Group] @ map Ch '' + \"b\"'') \<and>
   replaceAssets ''\"a\" + \"a\" + \"b\" + x + \"b\"'' [(''u'', ''\"a\" + n + \"b\"'')]
     = Some (''_templateAssets['' @ [sq] @ ''u'' @ [sq] @ ''],\"a\" + x + \"b\"'') \<and>
   \<not> hasMatch (map Ch ''\"a\" + '' @ [Group] @ map Ch '' + \"b\"'')
       (''_templateAssets['' @ [sq] @ ''u'' @ [sq] @ '']'') \<and>
   \<not> hasMatch (map Ch ''\"a\" + '' @ [Group] @ map Ch '' + \"b\"'')
       (''_templateAssets['' @ [sq] @ ''u'' @ [sq] @ ''],\"a\"'') \<and>
   replaceAssets (''_templateAssets['' @ [sq] @ ''u'' @ [sq] @ ''],\"a\" + x + \"b\"'')
       [(''u'', ''\"a\" + n + \"b\"'')]
     = Some (''_templateAssets['' @ [sq] @ ''u'' @ [sq] @ ''],_templateAssets['' @ [sq] @ ''u'' @ [sq] @ ''],x'')"
  by (simp add: rewriting_eval)

lemma staticExample_once:
  "replaceAssets ''[\"img/a.png\"]'' [(''u0'', ''img/a.png'')]
     = Some (''[_templateAssets['' @ [sq] @ ''u0'' @ [sq] @ '']]'')"
  by (simp add: rewriting_eval)

lemma staticExample_no_match:
  "list_all (\<lambda>asset. case getAssetReplaceRegExp (snd asset) of
                       None \<Rightarrow> True
                     | Some re \<Rightarrow> \<not> hasMatch re (''[_templateAssets['' @ [sq] @ ''u0'' @ [sq] @ '']]''))
     [(''u0'', ''img/a.png'')]"
  by (simp add: rewriting_eval)

theorem replaceAssets_idempotent_witness:
  "replaceAssets ''[\"img/a.png\"]'' [(''u0'', ''img/a.png'')]
     = Some (''[_templateAssets['' @ [sq] @ ''u0'' @ [sq] @ '']]'') \<and>
   replaceAssets (''[_templateAssets['' @ [sq] @ ''u0'' @ [sq] @ '']]'') [(''u0'', ''img/a.png'')]
     = Some (''[_templateAssets['' @ [sq] @ ''u0'' @ [sq] @ '']]'')"
  using replaceAssets_idempotent_if_no_match_left [OF staticExample_once staticExample_no_match]
    staticExample_once
  by blast

end
